theory Spec2Isabelle
  imports Main "HOL-Library.Word"
begin

section \<open>Errors\<close>

text \<open>
  The JavaScript exceptions the two modules can raise: a failed \<open>assert\<close>, a plain
  \<open>Error\<close> with its message (also used for whatever a storage handler or the VHD class
  rejects with) and the \<open>RangeError\<close> of \<open>Buffer.alloc\<close> and \<open>writeUInt32BE\<close>.
\<close>

datatype error = AssertionError | Error string | RangeError

section \<open>vhd-lib/src/merge.js\<close>

subsection \<open>Data read from the two disks\<close>

text \<open>
  Modelled from the spec: the footer and header structures are decoded by the VHD class,
  which is not part of the sources at hand. The records hold the fields the data model
  lists; \<open>merge\<close> reads and assigns them by name.
\<close>

record geometry =
  cylinders :: nat
  heads :: nat
  sectorsPerTrackCylinder :: nat

record footer =
  cookie :: string
  features :: nat
  fileFormatVersion :: nat
  dataOffset :: nat
  timestamp :: nat
  creatorApplication :: string
  creatorHostOs :: nat
  originalSize :: nat
  currentSize :: nat
  diskGeometry :: geometry
  diskType :: nat
  checksum :: nat
  uuid :: "nat list"

record header =
  maxTableEntries :: nat
  blockSize :: nat

text \<open>
  Modelled from the spec: the disk type constants of \<open>_constants.js\<close> (fixed, dynamic,
  differencing), with the values of the VHD format.
\<close>

definition DISK_TYPE_FIXED :: nat where "DISK_TYPE_FIXED = 2"
definition DISK_TYPE_DYNAMIC :: nat where "DISK_TYPE_DYNAMIC = 3"
definition DISK_TYPE_DIFFERENCING :: nat where "DISK_TYPE_DIFFERENCING = 4"

subsection \<open>The collaborators\<close>

text \<open>
  The storage handlers and the VHD class are injected collaborators. Their operations are
  parameters of the model: each acts on an abstract world \<open>'w\<close> (the files and the
  in-memory tables of both VHD objects) and either resolves with a value or rejects with
  an error; in both cases the world may have changed. The header and footer objects are
  plain data that \<open>readHeaderAndFooter\<close> hands over and only \<open>merge\<close> assigns.
\<close>

datatype role = Parent | Child

type_synonym fd = nat

record 'w collaborators =
  openFile :: "role \<Rightarrow> 'w \<Rightarrow> (error + fd) \<times> 'w"
  closeFile :: "role \<Rightarrow> fd \<Rightarrow> 'w \<Rightarrow> (error + unit) \<times> 'w"
  readHeaderAndFooter :: "role \<Rightarrow> fd \<Rightarrow> 'w \<Rightarrow> (error + header \<times> footer) \<times> 'w"
  readBlockAllocationTable :: "role \<Rightarrow> fd \<Rightarrow> 'w \<Rightarrow> (error + unit) \<times> 'w"
  ensureBatSize :: "nat \<Rightarrow> 'w \<Rightarrow> (error + unit) \<times> 'w"
  containsBlock :: "nat \<Rightarrow> 'w \<Rightarrow> bool"
  coalesceBlock :: "nat \<Rightarrow> 'w \<Rightarrow> (error + nat) \<times> 'w"
  writeFooter :: "footer \<Rightarrow> 'w \<Rightarrow> (error + unit) \<times> 'w"

text \<open>
  Every call \<open>merge\<close> makes on a collaborator is recorded, in order, with its arguments
  and with the value it produced (\<open>None\<close> when it rejected).
\<close>

datatype event =
    OpenFile role "fd option"
  | CloseFile role fd
  | ReadHeaderAndFooter role "(header \<times> footer) option"
  | ReadBlockAllocationTable role
  | EnsureBatSize nat
  | ContainsBlock nat bool
  | CoalesceBlock nat "nat option"
  | WriteFooter footer

record 'w run =
  world :: 'w
  trace :: "event list"

fun produced :: "error + 'a \<Rightarrow> 'a option" where
  "produced (Inl e) = None"
| "produced (Inr v) = Some v"

definition call ::
  "('w \<Rightarrow> (error + 'a) \<times> 'w) \<Rightarrow> ('a option \<Rightarrow> event) \<Rightarrow> 'w run \<Rightarrow> (error + 'a) \<times> 'w run" where
  "call op ev r =
     (case op (world r) of
        (res, w') \<Rightarrow> (res, r\<lparr>world := w', trace := trace r @ [ev (produced res)]\<rparr>))"

subsection \<open>The block loop (lines 46 to 55)\<close>

function coalesce_loop ::
  "'w collaborators \<Rightarrow> nat \<Rightarrow> nat \<Rightarrow> nat \<Rightarrow> 'w run \<Rightarrow> (error + nat) \<times> 'w run" where
  "coalesce_loop io blockId maxEntries mergedDataSize r =
     (if blockId < maxEntries then
        (let present = containsBlock io blockId (world r);
             r1 = r\<lparr>trace := trace r @ [ContainsBlock blockId present]\<rparr>
         in if present then
              (case call (coalesceBlock io blockId) (CoalesceBlock blockId) r1 of
                 (Inl e, r2) \<Rightarrow> (Inl e, r2)
               | (Inr n, r2) \<Rightarrow>
                   coalesce_loop io (Suc blockId) maxEntries (mergedDataSize + n) r2)
            else coalesce_loop io (Suc blockId) maxEntries mergedDataSize r1)
      else (Inr mergedDataSize, r))"
  by pat_completeness auto
termination
  by (relation "measure (\<lambda>(io, blockId, maxEntries, m, r). maxEntries - blockId)") auto

declare coalesce_loop.simps [simp del]

subsection \<open>The body between the two \<open>try\<close> and \<open>finally\<close> (lines 21 to 70)\<close>

text \<open>
  \<open>Promise.all\<close> starts both reads, the parent's first, and rejects as soon as one of
  them rejects: the error reported is that of the read that rejects first in time, and
  the \<open>finally\<close> blocks then run while the other read may still be pending. The
  model has no clock: it runs the two reads to completion one after the other, the
  parent's first, and reports the parent's error when both reject. What is proved below
  of a merge in which a read of a pair rejects does not depend on which of two errors is
  reported, nor on when the other read completes.
\<close>

definition both ::
  "('w run \<Rightarrow> (error + 'a) \<times> 'w run) \<Rightarrow> ('w run \<Rightarrow> (error + 'b) \<times> 'w run) \<Rightarrow>
   'w run \<Rightarrow> (error + 'a \<times> 'b) \<times> 'w run" where
  "both f g r =
     (case f r of (x, r1) \<Rightarrow>
        (case g r1 of (y, r2) \<Rightarrow>
           (case x of
              Inl e \<Rightarrow> (Inl e, r2)
            | Inr a \<Rightarrow> (case y of Inl e \<Rightarrow> (Inl e, r2) | Inr b \<Rightarrow> (Inr (a, b), r2)))))"

definition merge_footer :: "footer \<Rightarrow> footer \<Rightarrow> footer" where
  "merge_footer pFooter cFooter =
     pFooter\<lparr>currentSize := currentSize cFooter,
             diskGeometry := diskGeometry cFooter,
             originalSize := originalSize cFooter,
             timestamp := timestamp cFooter,
             uuid := uuid cFooter\<rparr>"

definition merge_body ::
  "'w collaborators \<Rightarrow> fd \<Rightarrow> fd \<Rightarrow> 'w run \<Rightarrow> (error + nat) \<times> 'w run" where
  "merge_body io parentFd childFd r =
     (case both (call (readHeaderAndFooter io Parent parentFd) (ReadHeaderAndFooter Parent))
                (call (readHeaderAndFooter io Child childFd) (ReadHeaderAndFooter Child)) r of
        (Inl e, r1) \<Rightarrow> (Inl e, r1)
      | (Inr ((pHeader, pFooter), (cHeader, cFooter)), r1) \<Rightarrow>
          if blockSize cHeader \<noteq> blockSize pHeader then (Inl AssertionError, r1)
          else if \<not> (diskType pFooter = DISK_TYPE_DIFFERENCING \<or>
                      diskType pFooter = DISK_TYPE_DYNAMIC) then (Inl AssertionError, r1)
          else if diskType cFooter \<noteq> DISK_TYPE_DIFFERENCING then (Inl AssertionError, r1)
          else
            (case both (call (readBlockAllocationTable io Parent parentFd)
                          (\<lambda>_. ReadBlockAllocationTable Parent))
                       (call (readBlockAllocationTable io Child childFd)
                          (\<lambda>_. ReadBlockAllocationTable Child)) r1 of
               (Inl e, r2) \<Rightarrow> (Inl e, r2)
             | (Inr _, r2) \<Rightarrow>
                 (case call (ensureBatSize io (maxTableEntries cHeader))
                         (\<lambda>_. EnsureBatSize (maxTableEntries cHeader)) r2 of
                    (Inl e, r3) \<Rightarrow> (Inl e, r3)
                  | (Inr _, r3) \<Rightarrow>
                      (case coalesce_loop io 0 (maxTableEntries cHeader) 0 r3 of
                         (Inl e, r4) \<Rightarrow> (Inl e, r4)
                       | (Inr mergedDataSize, r4) \<Rightarrow>
                           (case call (writeFooter io (merge_footer pFooter cFooter))
                                   (\<lambda>_. WriteFooter (merge_footer pFooter cFooter)) r4 of
                              (Inl e, r5) \<Rightarrow> (Inl e, r5)
                            | (Inr _, r5) \<Rightarrow> (Inr mergedDataSize, r5))))))"

subsection \<open>\<open>try\<close> and \<open>finally\<close>\<close>

text \<open>
  The \<open>finally\<close> block runs after the body on every path; when it throws, its error
  replaces the completion of the body.
\<close>

definition try_finally ::
  "(error + 'a) \<times> 'w run \<Rightarrow> ('w run \<Rightarrow> (error + unit) \<times> 'w run) \<Rightarrow> (error + 'a) \<times> 'w run" where
  "try_finally completion cleanup =
     (case completion of (res, r) \<Rightarrow>
        (case cleanup r of
           (Inl e, r') \<Rightarrow> (Inl e, r')
         | (Inr _, r') \<Rightarrow> (res, r')))"

definition merge :: "'w collaborators \<Rightarrow> 'w \<Rightarrow> (error + nat) \<times> 'w run" where
  "merge io w =
     (case call (openFile io Parent) (OpenFile Parent) \<lparr>world = w, trace = []\<rparr> of
        (Inl e, r1) \<Rightarrow> (Inl e, r1)
      | (Inr parentFd, r1) \<Rightarrow>
          try_finally
            (case call (openFile io Child) (OpenFile Child) r1 of
               (Inl e, r2) \<Rightarrow> (Inl e, r2)
             | (Inr childFd, r2) \<Rightarrow>
                 try_finally (merge_body io parentFd childFd r2)
                   (call (closeFile io Child childFd) (\<lambda>_. CloseFile Child childFd)))
            (call (closeFile io Parent parentFd) (\<lambda>_. CloseFile Parent parentFd)))"

subsection \<open>Reading a trace\<close>

text \<open>
  Projections of a trace: the block presence queries with their answers, the indices
  handed to \<open>coalesceBlock\<close>, the byte counts it reported, the headers and footers read,
  the footers written, and the handles that were opened and not closed afterwards.
\<close>

fun queries :: "event list \<Rightarrow> (nat \<times> bool) list" where
  "queries [] = []"
| "queries (ContainsBlock i b # es) = (i, b) # queries es"
| "queries (e # es) = queries es"

fun coalesced :: "event list \<Rightarrow> nat list" where
  "coalesced [] = []"
| "coalesced (CoalesceBlock i x # es) = i # coalesced es"
| "coalesced (e # es) = coalesced es"

fun reported :: "event list \<Rightarrow> nat list" where
  "reported [] = []"
| "reported (CoalesceBlock i (Some n) # es) = n # reported es"
| "reported (e # es) = reported es"

fun block_event :: "event \<Rightarrow> bool" where
  "block_event (ContainsBlock i b) = True"
| "block_event (CoalesceBlock i x) = True"
| "block_event e = False"

fun leaked :: "event list \<Rightarrow> (role \<times> fd) list \<Rightarrow> (role \<times> fd) list" where
  "leaked [] hs = hs"
| "leaked (OpenFile ro (Some h) # es) hs = leaked es ((ro, h) # hs)"
| "leaked (CloseFile ro h # es) hs = leaked es (remove1 (ro, h) hs)"
| "leaked (e # es) hs = leaked es hs"


fun reads :: "role \<Rightarrow> event list \<Rightarrow> (header \<times> footer) list" where
  "reads ro [] = []"
| "reads ro (ReadHeaderAndFooter ro' (Some hf) # es) =
     (if ro' = ro then hf # reads ro es else reads ro es)"
| "reads ro (e # es) = reads ro es"

fun written :: "event list \<Rightarrow> footer list" where
  "written [] = []"
| "written (WriteFooter f # es) = f # written es"
| "written (e # es) = written es"

definition walk_ok :: "nat \<Rightarrow> nat \<Rightarrow> nat \<Rightarrow> (error + nat) \<Rightarrow> event list \<Rightarrow> bool" where
  "walk_ok i m acc res es \<longleftrightarrow>
     (\<forall>e \<in> set es. block_event e) \<and>
     coalesced es = map fst (filter snd (queries es)) \<and>
     (case res of
        Inl e \<Rightarrow> True
      | Inr n \<Rightarrow> map fst (queries es) = [i..<m] \<and> length (reported es) = length (coalesced es) \<and>
                 n = acc + sum_list (reported es))"

subsection \<open>A concrete pair of disks\<close>

text \<open>
  Collaborators that never fail, for a parent of two blocks and a child of three whose
  blocks 0 and 2 are allocated; coalescing block \<open>i\<close> reports \<open>512 * (i + 1)\<close> bytes and
  the world counts the bytes merged so far.
\<close>

definition demo_footer :: "nat \<Rightarrow> nat \<Rightarrow> footer" where
  "demo_footer ty stamp =
     \<lparr>cookie = ''conectix'', features = 2, fileFormatVersion = 65536, dataOffset = 512,
      timestamp = stamp, creatorApplication = ''xo  '', creatorHostOs = 1466511979,
      originalSize = 2097152 * stamp, currentSize = 2097152 * stamp,
      diskGeometry = \<lparr>cylinders = stamp, heads = 4, sectorsPerTrackCylinder = 17\<rparr>,
      diskType = ty, checksum = 0, uuid = [stamp, ty]\<rparr>"

definition demo_io :: "nat \<Rightarrow> nat \<Rightarrow> nat \<Rightarrow> nat collaborators" where
  "demo_io parentType childType childBlockSize =
     \<lparr>openFile = (\<lambda>ro w. (Inr (case ro of Parent \<Rightarrow> 3 | Child \<Rightarrow> 4), w)),
      closeFile = (\<lambda>ro h w. (Inr (), w)),
      readHeaderAndFooter = (\<lambda>ro h w.
        (Inr (case ro of
                Parent \<Rightarrow> (\<lparr>maxTableEntries = 2, blockSize = 2097152\<rparr>, demo_footer parentType 2)
              | Child \<Rightarrow> (\<lparr>maxTableEntries = 3, blockSize = childBlockSize\<rparr>,
                            demo_footer childType 3)), w)),
      readBlockAllocationTable = (\<lambda>ro h w. (Inr (), w)),
      ensureBatSize = (\<lambda>n w. (Inr (), w)),
      containsBlock = (\<lambda>i w. i \<noteq> 1),
      coalesceBlock = (\<lambda>i w. (Inr (512 * (i + 1)), w + 512 * (i + 1))),
      writeFooter = (\<lambda>f w. (Inr (), w))\<rparr>"

text \<open>
  The same pair of disks, with the footer stored in the parent's file as the world:
  reading the parent's header and footer gives the stored footer, and \<open>writeFooter\<close>
  replaces it.
\<close>

definition disk_io :: "footer collaborators" where
  "disk_io =
     \<lparr>openFile = (\<lambda>ro w. (Inr (case ro of Parent \<Rightarrow> 3 | Child \<Rightarrow> 4), w)),
      closeFile = (\<lambda>ro h w. (Inr (), w)),
      readHeaderAndFooter = (\<lambda>ro h w.
        (Inr (case ro of
                Parent \<Rightarrow> (\<lparr>maxTableEntries = 2, blockSize = 2097152\<rparr>, w)
              | Child \<Rightarrow> (\<lparr>maxTableEntries = 3, blockSize = 2097152\<rparr>, demo_footer 4 3)), w)),
      readBlockAllocationTable = (\<lambda>ro h w. (Inr (), w)),
      ensureBatSize = (\<lambda>n w. (Inr (), w)),
      containsBlock = (\<lambda>i w. i \<noteq> 1),
      coalesceBlock = (\<lambda>i w. (Inr (512 * (i + 1)), w)),
      writeFooter = (\<lambda>f w. (Inr (), f))\<rparr>"


section \<open>xo-vmdk-to-vhd/src/vhd-write.js\<close>

subsection \<open>Buffers\<close>

text \<open>
  Lengths, offsets and block indices are natural numbers. The source computes them as
  JavaScript numbers, which are exact on the integers below \<open>2 ^ 53\<close>: the model follows
  the source on offsets and sizes below that bound, and computes exactly where the source
  would round.
\<close>

type_synonym byte = "8 word"

text \<open>
  \<open>buf.slice(start, end)\<close>: a negative index counts from the end and both indices are
  clamped to the buffer. \<open>source.copy(target, targetStart)\<close> overwrites the target from
  \<open>targetStart\<close> with as many bytes of the source as fit; the result is the target after
  the call.
\<close>

definition slice :: "'a list \<Rightarrow> int \<Rightarrow> int \<Rightarrow> 'a list" where
  "slice xs start end' =
     (let n = int (length xs);
          s = (if start < 0 then max (n + start) 0 else min start n);
          e = (if end' < 0 then max (n + end') 0 else min end' n)
      in take (nat (e - s)) (drop (nat s) xs))"

definition copy :: "'a list \<Rightarrow> 'a list \<Rightarrow> nat \<Rightarrow> 'a list" where
  "copy source target targetStart =
     (if length target \<le> targetStart then target
      else (let n = min (length source) (length target - targetStart)
            in take targetStart target @ take n source @ drop (targetStart + n) target))"

text \<open>\<open>Math.ceil(a / b)\<close> on non-negative integers, for \<open>b\<close> other than 0.\<close>

definition ceil_div :: "nat \<Rightarrow> nat \<Rightarrow> nat" where
  "ceil_div a b = (a + b - 1) div b"

definition uint32BE :: "nat \<Rightarrow> byte list" where
  "uint32BE v =
     [of_nat (v div 16777216 mod 256), of_nat (v div 65536 mod 256),
      of_nat (v div 256 mod 256), of_nat (v mod 256)]"

text \<open>
  \<open>buf.writeUInt32BE(value, offset)\<close> throws when the value does not fit 32 bits or the
  four bytes do not lie inside the buffer.
\<close>

definition writeUInt32BE :: "byte list \<Rightarrow> nat \<Rightarrow> nat \<Rightarrow> error + byte list" where
  "writeUInt32BE buf v offset =
     (if 4294967296 \<le> v \<or> length buf < offset + 4 then Inl RangeError
      else Inr (take offset buf @ uint32BE v @ drop (offset + 4) buf))"

subsection \<open>What is imported from vhd-lib\<close>

text \<open>
  Modelled from the spec: the sector size (512 bytes throughout) and the disk type
  constants (fixed, dynamic) of vhd-lib, with the values of the VHD format.
\<close>

definition VHD_SECTOR_SIZE :: nat where "VHD_SECTOR_SIZE = 512"
definition HARD_DISK_TYPE_FIXED :: nat where "HARD_DISK_TYPE_FIXED = 2"
definition HARD_DISK_TYPE_DYNAMIC :: nat where "HARD_DISK_TYPE_DYNAMIC = 3"

text \<open>
  The struct codec (\<open>fuFooter\<close>, \<open>fuHeader\<close>, \<open>checksumStruct\<close>) and
  \<open>computeGeometryForSize\<close> are parameters of the model. An object literal handed to
  \<open>pack\<close> is the list of its properties; \<open>checksumStruct\<close> changes the buffer in place
  and the model returns the changed buffer.
\<close>

record sized_geometry = geometry +
  actualSize :: nat

datatype struct = fuFooter | fuHeader

datatype jsval = Undefined | Num nat | Str string | Buf "byte list" | Geo sized_geometry

record vhd_lib =
  computeGeometryForSize :: "nat \<Rightarrow> sized_geometry"
  pack :: "struct \<Rightarrow> (string \<times> jsval) list \<Rightarrow> byte list"
  struct_size :: "struct \<Rightarrow> nat"
  checksumStruct :: "byte list \<Rightarrow> struct \<Rightarrow> byte list"

definition footerCookie :: string where "footerCookie = ''conectix''"
definition creatorApp :: string where "creatorApp = ''xo  ''"
definition WIN2K_OS :: nat where "WIN2K_OS = 1466511979"
definition headerCookie :: string where "headerCookie = ''cxsparse''"

definition createFooter ::
  "vhd_lib \<Rightarrow> nat \<Rightarrow> nat \<Rightarrow> sized_geometry \<Rightarrow> nat \<Rightarrow> jsval \<Rightarrow> byte list" where
  "createFooter lib size' timestamp' geometry' diskType' dataOffset' =
     checksumStruct lib
       (pack lib fuFooter
          [(''cookie'', Str footerCookie),
           (''features'', Num 2),
           (''fileFormatVersion'', Num 65536),
           (''dataOffset'', dataOffset'),
           (''timestamp'', Num timestamp'),
           (''creatorApplication'', Str creatorApp),
           (''creatorHostOs'', Num WIN2K_OS),
           (''originalSize'', Num size'),
           (''currentSize'', Num size'),
           (''diskGeometry'', Geo geometry'),
           (''diskType'', Num diskType')])
       fuFooter"

definition createDynamicDiskHeader :: "vhd_lib \<Rightarrow> nat \<Rightarrow> nat \<Rightarrow> byte list" where
  "createDynamicDiskHeader lib tableEntries blockSize' =
     checksumStruct lib
       (pack lib fuHeader
          [(''cookie'', Str headerCookie),
           (''dataOffsetUnused'', Buf (replicate 8 255)),
           (''tableOffset'', Num (VHD_SECTOR_SIZE * 3)),
           (''headerVersion'', Num 65536),
           (''maxTableEntries'', Num tableEntries),
           (''blockSize'', Num blockSize'),
           (''checksum'', Num 0)])
       fuHeader"

subsection \<open>class Block\<close>

text \<open>
  \<open>bitmapBuffer\<close> and \<open>dataBuffer\<close> are views of \<open>buffer\<close>: the first \<open>bitmapSize\<close>
  bytes and the rest. The sizes are those of the constructor for a block size that is a
  multiple of \<open>VHD_SECTOR_SIZE * 8\<close>, as the builder's 0x200000 is: then
  \<open>blockSize / VHD_SECTOR_SIZE / 8\<close> is a whole number. For another block size the
  model reads the fractional bitmap size as its integer part.
\<close>

record Block =
  buffer :: "byte list"
  bitmapSize :: nat

definition bitmapBuffer :: "Block \<Rightarrow> byte list" where
  "bitmapBuffer b = take (bitmapSize b) (buffer b)"

definition dataBuffer :: "Block \<Rightarrow> byte list" where
  "dataBuffer b = drop (bitmapSize b) (buffer b)"

definition Block_bufferSize :: "nat \<Rightarrow> nat" where
  "Block_bufferSize blockSize' =
     ceil_div (blockSize' * (VHD_SECTOR_SIZE * 8) + blockSize')
              (VHD_SECTOR_SIZE * 8 * VHD_SECTOR_SIZE) * VHD_SECTOR_SIZE"

definition Block_new :: "nat \<Rightarrow> Block" where
  "Block_new blockSize' =
     (let bitmapSize' = blockSize' div VHD_SECTOR_SIZE div 8;
          bufferSize = Block_bufferSize blockSize'
      in \<lparr>buffer = replicate bitmapSize' 255 @ replicate (bufferSize - bitmapSize') 0,
          bitmapSize = bitmapSize'\<rparr>)"

definition writeData :: "Block \<Rightarrow> byte list \<Rightarrow> nat \<Rightarrow> Block" where
  "writeData b buf offset = b\<lparr>buffer := bitmapBuffer b @ copy buf (dataBuffer b) offset\<rparr>"

text \<open>
  A file opened for writing is the list of the buffers written to it so far, in order;
  the file system is taken never to fail.
\<close>

type_synonym out_file = "byte list list"

definition Block_writeOnFile :: "Block \<Rightarrow> out_file \<Rightarrow> out_file" where
  "Block_writeOnFile b f = f @ [buffer b]"

subsection \<open>createEmptyTable and class SparseExtent\<close>

record Table =
  entryCount :: nat
  buffer :: "byte list"
  entries :: "nat \<Rightarrow> Block option"

text \<open>
  With a block size of 0 the block count is not a finite number and \<open>Buffer.alloc\<close>
  throws.
\<close>

definition createEmptyTable :: "nat \<Rightarrow> nat \<Rightarrow> error + Table" where
  "createEmptyTable dataSize blockSize' =
     (if blockSize' = 0 then Inl RangeError
      else (let blockCount = ceil_div dataSize blockSize';
                tableSizeSectors = ceil_div (blockCount * 4) VHD_SECTOR_SIZE
            in Inr \<lparr>entryCount = blockCount,
                    buffer = replicate (tableSizeSectors * VHD_SECTOR_SIZE) 255,
                    entries = (\<lambda>i. None)\<rparr>))"

record SparseExtent =
  table :: Table
  blockSize :: nat
  startOffset :: nat

definition SparseExtent_new :: "nat \<Rightarrow> nat \<Rightarrow> nat \<Rightarrow> error + SparseExtent" where
  "SparseExtent_new dataSize blockSize' startOffset' =
     (case createEmptyTable dataSize blockSize' of
        Inl e \<Rightarrow> Inl e
      | Inr t \<Rightarrow>
          Inr \<lparr>table = t, blockSize = blockSize',
               startOffset = (startOffset' + length (buffer t)) div VHD_SECTOR_SIZE\<rparr>)"

text \<open>
  \<open>_writeBlock\<close> throws before it changes anything; the first component of the result is
  the error thrown, if any, and the second the extent after the call.
\<close>

definition writeBlock ::
  "SparseExtent \<Rightarrow> byte list \<Rightarrow> nat \<Rightarrow> nat \<Rightarrow> error option \<times> SparseExtent" where
  "writeBlock ext blockBuffer tableIndex offset =
     (if length blockBuffer + offset > blockSize ext
      then (Some (Error ''invalid block geometry''), ext)
      else (let entry = (case entries (table ext) tableIndex of
                           None \<Rightarrow> Block_new (blockSize ext)
                         | Some b \<Rightarrow> b)
            in (None,
                ext\<lparr>table := (table ext)\<lparr>entries :=
                       (entries (table ext))(tableIndex \<mapsto> writeData entry blockBuffer offset)\<rparr>\<rparr>)))"

function writeBuffer_loop ::
  "SparseExtent \<Rightarrow> byte list \<Rightarrow> nat \<Rightarrow> nat \<Rightarrow> nat \<Rightarrow> error option \<times> SparseExtent" where
  "writeBuffer_loop ext buf offset i endBlock =
     (if i < endBlock then
        (let blockDelta = int offset - int i * int (blockSize ext);
             (blockBuffer, blockOffset) =
               (if blockDelta > 0
                then (slice buf 0 ((int i + 1) * int (blockSize ext) - int offset),
                      nat blockDelta)
                else (slice buf (- blockDelta) ((int i + 1) * int (blockSize ext) - int offset),
                      0))
         in (case writeBlock ext blockBuffer i blockOffset of
               (Some e, ext') \<Rightarrow> (Some e, ext')
             | (None, ext') \<Rightarrow> writeBuffer_loop ext' buf offset (Suc i) endBlock))
      else (None, ext))"
  by pat_completeness auto
termination
  by (relation "measure (\<lambda>(ext, buf, offset, i, endBlock). endBlock - i)") auto

declare writeBuffer_loop.simps [simp del]

text \<open>
  With a block size of 0 the two bounds are infinite or not a number, and the loop does
  not run.
\<close>

definition writeBuffer :: "SparseExtent \<Rightarrow> byte list \<Rightarrow> nat \<Rightarrow> error option \<times> SparseExtent" where
  "writeBuffer ext buf offset =
     (if blockSize ext = 0 then (None, ext)
      else (let startBlock = offset div blockSize ext;
                endBlock = ceil_div (offset + length buf) (blockSize ext)
            in writeBuffer_loop ext buf offset startBlock endBlock))"

function stamp_loop :: "SparseExtent \<Rightarrow> nat \<Rightarrow> nat \<Rightarrow> error option \<times> SparseExtent" where
  "stamp_loop ext i currentOffset =
     (if i < entryCount (table ext) then
        (case entries (table ext) i of
           None \<Rightarrow> stamp_loop ext (Suc i) currentOffset
         | Some block \<Rightarrow>
             (case writeUInt32BE (buffer (table ext)) currentOffset (i * 4) of
                Inl e \<Rightarrow> (Some e, ext)
              | Inr buf \<Rightarrow>
                  stamp_loop (ext\<lparr>table := (table ext)\<lparr>buffer := buf\<rparr>\<rparr>) (Suc i)
                    (currentOffset + length (Block.buffer block) div VHD_SECTOR_SIZE)))
      else (None, ext))"
  by pat_completeness auto
termination
  by (relation "measure (\<lambda>(ext, i, currentOffset). entryCount (table ext) - i)") auto

declare stamp_loop.simps [simp del]

function blocks_loop :: "SparseExtent \<Rightarrow> nat \<Rightarrow> out_file \<Rightarrow> out_file" where
  "blocks_loop ext i f =
     (if i < entryCount (table ext) then
        (case entries (table ext) i of
           None \<Rightarrow> blocks_loop ext (Suc i) f
         | Some block \<Rightarrow> blocks_loop ext (Suc i) (Block_writeOnFile block f))
      else f)"
  by pat_completeness auto
termination
  by (relation "measure (\<lambda>(ext, i, f). entryCount (table ext) - i)") auto

declare blocks_loop.simps [simp del]

definition writeOnFile :: "SparseExtent \<Rightarrow> out_file \<Rightarrow> error option \<times> SparseExtent \<times> out_file" where
  "writeOnFile ext f =
     (case stamp_loop ext 0 (startOffset ext) of
        (Some e, ext') \<Rightarrow> (Some e, ext', f)
      | (None, ext') \<Rightarrow> (None, ext', blocks_loop ext' 0 (f @ [buffer (table ext')])))"

subsection \<open>class VHDFile\<close>

record VHDFile =
  geomtry :: sized_geometry
  timestamp :: nat
  blockSize :: nat
  sparseFile :: SparseExtent

definition VHDFile_new :: "vhd_lib \<Rightarrow> nat \<Rightarrow> nat \<Rightarrow> error + VHDFile" where
  "VHDFile_new lib virtualSize timestamp' =
     (let geomtry' = computeGeometryForSize lib virtualSize;
          blockSize' = 2097152
      in (case SparseExtent_new (actualSize geomtry') blockSize' (VHD_SECTOR_SIZE * 3) of
            Inl e \<Rightarrow> Inl e
          | Inr ext \<Rightarrow>
              Inr \<lparr>geomtry = geomtry', timestamp = timestamp', blockSize = blockSize',
                   sparseFile = ext\<rparr>))"

definition VHDFile_writeBuffer :: "VHDFile \<Rightarrow> byte list \<Rightarrow> nat \<Rightarrow> error option \<times> VHDFile" where
  "VHDFile_writeBuffer v buf offset =
     (case writeBuffer (sparseFile v) buf offset of
        (e, ext') \<Rightarrow> (e, v\<lparr>sparseFile := ext'\<rparr>))"

definition writeFile :: "vhd_lib \<Rightarrow> VHDFile \<Rightarrow> error option \<times> VHDFile \<times> out_file" where
  "writeFile lib v =
     (let fileFooter = createFooter lib (actualSize (geomtry v)) (timestamp v) (geomtry v)
                         HARD_DISK_TYPE_DYNAMIC (Num (struct_size lib fuFooter));
          diskHeader = createDynamicDiskHeader lib (entryCount (table (sparseFile v)))
                         (blockSize v);
          f0 = [];
          f1 = f0 @ [fileFooter];
          f2 = f1 @ [diskHeader]
      in (case writeOnFile (sparseFile v) f2 of
            (Some e, ext', f3) \<Rightarrow> (Some e, v\<lparr>sparseFile := ext'\<rparr>, f3)
          | (None, ext', f3) \<Rightarrow> (None, v\<lparr>sparseFile := ext'\<rparr>, f3 @ [fileFooter])))"

text \<open>
  The life of a \<open>VHDFile\<close>: it is constructed, and then \<open>writeBuffer\<close> and \<open>writeFile\<close>
  are called on it, any number of times in any order. An error thrown by one call does
  not undo what the call has done before, and the caller may go on.
\<close>

datatype op = WriteBuffer "byte list" nat | WriteFile

fun apply_op :: "vhd_lib \<Rightarrow> VHDFile \<Rightarrow> op \<Rightarrow> VHDFile" where
  "apply_op lib v (WriteBuffer buf offset) = snd (VHDFile_writeBuffer v buf offset)"
| "apply_op lib v WriteFile = fst (snd (writeFile lib v))"

definition built :: "vhd_lib \<Rightarrow> nat \<Rightarrow> nat \<Rightarrow> op list \<Rightarrow> error + VHDFile" where
  "built lib virtualSize timestamp' ops =
     (case VHDFile_new lib virtualSize timestamp' of
        Inl e \<Rightarrow> Inl e
      | Inr v \<Rightarrow> Inr (foldl (apply_op lib) v ops))"

subsection \<open>A buffer write, block by block\<close>

text \<open>
  What the splitting of a write is meant to be: the block indices touched are those from
  \<open>floor(offset / blockSize)\<close> up to, and not including,
  \<open>ceil((offset + length) / blockSize)\<close>; the sub-buffer of a block is the part of the
  buffer that lies in it; the offset inside the block is \<open>offset mod blockSize\<close> for the
  first touched block and 0 for the others; and the block after the write is the block
  that was there, or a new one, with the sub-buffer written at that offset.
\<close>

definition sub_buffer :: "nat \<Rightarrow> byte list \<Rightarrow> nat \<Rightarrow> nat \<Rightarrow> byte list" where
  "sub_buffer bs buf offset i = take ((i + 1) * bs - max (i * bs) offset) (drop (i * bs - offset) buf)"

definition in_block_offset :: "nat \<Rightarrow> nat \<Rightarrow> nat \<Rightarrow> nat" where
  "in_block_offset bs offset i = (if i = offset div bs then offset mod bs else 0)"

definition touched :: "nat \<Rightarrow> byte list \<Rightarrow> nat \<Rightarrow> nat \<Rightarrow> bool" where
  "touched bs buf offset i \<longleftrightarrow> offset div bs \<le> i \<and> i < ceil_div (offset + length buf) bs"

definition block_written :: "SparseExtent \<Rightarrow> byte list \<Rightarrow> nat \<Rightarrow> nat \<Rightarrow> Block" where
  "block_written ext buf offset i =
     writeData (case entries (table ext) i of
                  None \<Rightarrow> Block_new (SparseExtent.blockSize ext) | Some b \<Rightarrow> b)
       (sub_buffer (SparseExtent.blockSize ext) buf offset i)
       (in_block_offset (SparseExtent.blockSize ext) offset i)"

subsection \<open>The table and the blocks on disk\<close>

text \<open>
  Entry \<open>i\<close> of a table buffer is its four bytes from \<open>4 * i\<close>. A block takes
  \<open>sectors\<close> sectors in the file. The allocated blocks with an index from \<open>i\<close> up to
  \<open>j\<close> are listed by ascending index, and \<open>cursor ext i\<close> is the sector at which the
  block of index \<open>i\<close> is placed: the start offset advanced by the sectors of every
  allocated block before it. \<open>stamped\<close> says how a walk from index \<open>i\<close> with cursor
  \<open>c\<close> has left the table buffer, and \<open>builder_inv\<close> is what every \<open>VHDFile\<close> keeps
  true of itself.
\<close>

definition bat_entry :: "byte list \<Rightarrow> nat \<Rightarrow> byte list" where
  "bat_entry buf i = take 4 (drop (i * 4) buf)"

definition sectors :: "Block \<Rightarrow> nat" where
  "sectors b = length (Block.buffer b) div VHD_SECTOR_SIZE"

definition allocated :: "SparseExtent \<Rightarrow> nat \<Rightarrow> nat \<Rightarrow> Block list" where
  "allocated ext i j = List.map_filter (entries (table ext)) [i..<j]"

definition cursor :: "SparseExtent \<Rightarrow> nat \<Rightarrow> nat" where
  "cursor ext i = startOffset ext + sum_list (map sectors (allocated ext 0 i))"

definition stamped ::
  "SparseExtent \<Rightarrow> nat \<Rightarrow> nat \<Rightarrow> error option \<Rightarrow> byte list \<Rightarrow> bool" where
  "stamped ext i c err B' \<longleftrightarrow>
     length B' = length (Table.buffer (table ext)) \<and>
     (\<forall>j. entries (table ext) j = None \<or> j < i \<or> entryCount (table ext) \<le> j \<longrightarrow>
          bat_entry B' j = bat_entry (Table.buffer (table ext)) j) \<and>
     (err = None \<longrightarrow>
        (\<forall>j b. i \<le> j \<and> j < entryCount (table ext) \<and> entries (table ext) j = Some b \<longrightarrow>
           bat_entry B' j = uint32BE (c + sum_list (map sectors (allocated ext i j)))))"

definition builder_inv :: "VHDFile \<Rightarrow> bool" where
  "builder_inv v \<longleftrightarrow>
     SparseExtent.blockSize (sparseFile v) = 2097152 \<and>
     entryCount (table (sparseFile v)) * 4 \<le> length (Table.buffer (table (sparseFile v))) \<and>
     (\<forall>i < entryCount (table (sparseFile v)).
        entries (table (sparseFile v)) i = None \<longrightarrow>
        bat_entry (Table.buffer (table (sparseFile v))) i = [255, 255, 255, 255]) \<and>
     (\<forall>i b. entries (table (sparseFile v)) i = Some b \<longrightarrow>
        length (Block.buffer b) = 4097 * VHD_SECTOR_SIZE \<and> bitmapSize b = 512)"

text \<open>An extent of two blocks of 4096 bytes, as the constructor makes it.\<close>

definition demo_extent :: SparseExtent where
  "demo_extent =
     \<lparr>table = \<lparr>entryCount = 2, buffer = replicate 512 255, entries = (\<lambda>i. None)\<rparr>,
      blockSize = 4096, startOffset = 4\<rparr>"

subsection \<open>class ReadableRawVHDStream\<close>

text \<open>
  The queue \<open>currentFile\<close> holds closures that produce the next chunk when called. There
  are four of them in the source: one allocating a zero-filled buffer of a given length,
  one returning a grain's buffer, one returning the footer, and one that marks the stream
  done and returns \<open>null\<close>.
\<close>

datatype thunk = Zeros int | Grain "byte list" | FooterBytes | Finish

text \<open>
  What an \<open>'error'\<close> event carries: the string of the ordering check, or the error a
  rejected promise carried.
\<close>

datatype emitted = Message string | Thrown error

text \<open>
  The fields of the class, and of \<open>stream.Readable\<close> the chunks handed to \<open>push\<close> so far
  (\<open>None\<close> is \<open>null\<close>), the callbacks queued with \<open>process.nextTick\<close>, each of which
  emits an \<open>'error'\<close> event, and the \<open>'error'\<close> events emitted so far. The parser is the
  list of the grains it has not delivered yet; \<open>next()\<close> gives \<open>null\<close> once it is empty.
\<close>

record ReadableRawVHDStream =
  size' :: nat
  footer :: "byte list"
  position :: nat
  vmdkParser :: "(nat \<times> byte list) list"
  done' :: bool
  busy :: bool
  currentFile :: "thunk list"
  pushed :: "byte list option list"
  nextTick :: "emitted list"
  errorEvents :: "emitted list"

definition ReadableRawVHDStream_new ::
  "vhd_lib \<Rightarrow> nat \<Rightarrow> nat \<Rightarrow> (nat \<times> byte list) list \<Rightarrow> ReadableRawVHDStream" where
  "ReadableRawVHDStream_new lib now size'' parser =
     \<lparr>size' = size'',
      footer = createFooter lib size'' now (computeGeometryForSize lib size'')
                 HARD_DISK_TYPE_FIXED Undefined,
      position = 0, vmdkParser = parser, done' = False, busy = False, currentFile = [],
      pushed = [], nextTick = [], errorEvents = []\<rparr>"

text \<open>
  \<open>Buffer.alloc\<close> throws on a negative size. The remainder \<open>%\<close> of JavaScript has the
  sign of the dividend; \<open>Math.floor\<close> of a quotient is \<open>div\<close>.
\<close>

definition Buffer_alloc :: "int \<Rightarrow> error + byte list" where
  "Buffer_alloc n = (if n < 0 then Inl RangeError else Inr (replicate (nat n) 0))"

definition js_rem :: "int \<Rightarrow> int \<Rightarrow> int" where
  "js_rem a b = sgn a * (\<bar>a\<bar> mod \<bar>b\<bar>)"

definition chunkSize :: int where
  "chunkSize = 1024 * 1024"

definition filePadding :: "int \<Rightarrow> ReadableRawVHDStream \<Rightarrow> ReadableRawVHDStream" where
  "filePadding paddingLength s =
     (if paddingLength \<noteq> 0 then
        (let chunkCount = paddingLength div chunkSize
         in s\<lparr>currentFile := currentFile s @ replicate (nat chunkCount) (Zeros chunkSize) @
                                [Zeros (js_rem paddingLength chunkSize)]\<rparr>)
      else s)"

fun run_thunk ::
  "thunk \<Rightarrow> ReadableRawVHDStream \<Rightarrow> error + (byte list option \<times> ReadableRawVHDStream)" where
  "run_thunk (Zeros n) s = (case Buffer_alloc n of Inl e \<Rightarrow> Inl e | Inr b \<Rightarrow> Inr (Some b, s))"
| "run_thunk (Grain b) s = Inr (Some b, s)"
| "run_thunk FooterBytes s = Inr (Some (footer s), s)"
| "run_thunk Finish s = Inr (None, s\<lparr>done' := True\<rparr>)"

text \<open>
  \<open>push\<close> of \<open>stream.Readable\<close> takes the chunk and tells whether the consumer wants
  more. Its answers are a parameter: \<open>sink k\<close> is the answer to the push that follows
  \<open>k\<close> earlier ones. The answer to \<open>push(null)\<close> is \<open>false\<close>.
\<close>

type_synonym sink = "nat \<Rightarrow> bool"

definition push ::
  "sink \<Rightarrow> byte list option \<Rightarrow> ReadableRawVHDStream \<Rightarrow> bool \<times> ReadableRawVHDStream" where
  "push sink chunk s =
     ((case chunk of None \<Rightarrow> False | Some b \<Rightarrow> sink (length (pushed s))),
      s\<lparr>pushed := pushed s @ [chunk]\<rparr>)"

text \<open>
  A function that throws returns \<open>Inl\<close>; an \<open>async\<close> function never throws to its caller:
  it returns a promise, rejected with what its body threw.
\<close>

datatype 'a promise = Resolved 'a | Rejected error

definition async :: "(error + 'a) \<times> 's \<Rightarrow> 'a promise \<times> 's" where
  "async c = (case c of (Inl e, s) \<Rightarrow> (Rejected e, s) | (Inr v, s) \<Rightarrow> (Resolved v, s))"

function pushFileUntilFull ::
  "sink \<Rightarrow> ReadableRawVHDStream \<Rightarrow> (error + bool) \<times> ReadableRawVHDStream" where
  "pushFileUntilFull sink s =
     (case currentFile s of
        [] \<Rightarrow> (Inr True, s)
      | t # ts \<Rightarrow>
          (case run_thunk t (s\<lparr>currentFile := ts\<rparr>) of
             Inl e \<Rightarrow> (Inl e, s\<lparr>currentFile := ts\<rparr>)
           | Inr (chunk, s1) \<Rightarrow>
               (case push sink chunk s1 of
                  (result, s2) \<Rightarrow>
                    if \<not> result then (Inr (currentFile s2 = []), s2)
                    else pushFileUntilFull sink s2)))"
  by pat_completeness auto
termination
  by (relation "measure (\<lambda>(sink, s). length (currentFile s))")
     (auto simp: push_def Buffer_alloc_def split: if_splits elim!: run_thunk.elims)

declare pushFileUntilFull.simps [simp del]

definition order_message :: string where
  "order_message = ''This VMDK file does not have its blocks in the correct order''"

definition pushNextBlock ::
  "sink \<Rightarrow> ReadableRawVHDStream \<Rightarrow> bool promise \<times> ReadableRawVHDStream" where
  "pushNextBlock sink s =
     async
       (case vmdkParser s of
          [] \<Rightarrow>
            (let paddingLength = int (size' s) - int (position s);
                 s1 = filePadding paddingLength s;
                 s2 = s1\<lparr>currentFile := currentFile s1 @ [FooterBytes]\<rparr>;
                 s3 = s2\<lparr>currentFile := currentFile s2 @ [Finish]\<rparr>
             in pushFileUntilFull sink s3)
        | (offset, buf) # rest \<Rightarrow>
            (let s0 = s\<lparr>vmdkParser := rest\<rparr>;
                 paddingLength = int offset - int (position s0);
                 s1 = (if paddingLength < 0
                       then s0\<lparr>nextTick := nextTick s0 @ [Message order_message]\<rparr>
                       else s0);
                 s2 = filePadding paddingLength s1;
                 s3 = s2\<lparr>currentFile := currentFile s2 @ [Grain buf]\<rparr>;
                 s4 = s3\<lparr>position := offset + length buf\<rparr>
             in pushFileUntilFull sink s4))"

text \<open>
  The loop of \<open>pushNextUntilFull\<close> ends: every round takes a grain from the parser, and
  the round after the last grain either leaves chunks in the queue or has run the closure
  that marks the stream done. The lemmas say what that needs of \<open>pushFileUntilFull\<close>,
  which touches nothing but the queue, the chunks pushed and the \<open>done\<close> flag.
\<close>

lemma run_thunk_state:
  "run_thunk t s = Inr (chunk, s1) \<Longrightarrow> s1 = s\<lparr>done' := (done' s \<or> t = Finish)\<rparr>"
  by (cases t) (auto simp: Buffer_alloc_def split: if_splits)

lemma pushFileUntilFull_Nil:
  "currentFile s = [] \<Longrightarrow> pushFileUntilFull sink s = (Inr True, s)"
  by (simp add: pushFileUntilFull.simps)

lemma pushFileUntilFull_throw:
  "currentFile s = t # ts \<Longrightarrow> run_thunk t (s\<lparr>currentFile := ts\<rparr>) = Inl e \<Longrightarrow>
   pushFileUntilFull sink s = (Inl e, s\<lparr>currentFile := ts\<rparr>)"
  by (simp add: pushFileUntilFull.simps [of sink s])

lemma pushFileUntilFull_Cons:
  "currentFile s = t # ts \<Longrightarrow> run_thunk t (s\<lparr>currentFile := ts\<rparr>) = Inr (chunk, s1) \<Longrightarrow>
   pushFileUntilFull sink s =
     (if \<not> fst (push sink chunk s1)
      then (Inr (currentFile (snd (push sink chunk s1)) = []), snd (push sink chunk s1))
      else pushFileUntilFull sink (snd (push sink chunk s1)))"
  by (simp add: pushFileUntilFull.simps [of sink s] split: prod.splits)

lemma pushFileUntilFull_frame:
  "pushFileUntilFull sink s = (r, s') \<Longrightarrow>
     vmdkParser s' = vmdkParser s \<and> nextTick s' = nextTick s \<and>
     errorEvents s' = errorEvents s \<and> position s' = position s \<and> size' s' = size' s \<and>
     footer s' = footer s \<and> busy s' = busy s \<and> (done' s \<longrightarrow> done' s') \<and>
     (r = Inr True \<longrightarrow> currentFile s' = [] \<and> (Finish \<in> set (currentFile s) \<longrightarrow> done' s')) \<and>
     (\<forall>e. r = Inl e \<longrightarrow> e = RangeError)"
proof (induction "length (currentFile s)" arbitrary: s)
  case 0
  then have "currentFile s = []" by simp
  with "0.prems" show ?case by (auto simp: pushFileUntilFull_Nil)
next
  case (Suc n)
  then obtain t ts where q: "currentFile s = t # ts" by (cases "currentFile s") auto
  show ?case
  proof (cases "run_thunk t (s\<lparr>currentFile := ts\<rparr>)")
    case (Inl e)
    then have "e = RangeError"
      by (cases t) (auto simp: Buffer_alloc_def split: if_splits)
    with Inl Suc.prems q show ?thesis by (auto simp: pushFileUntilFull_throw)
  next
    case (Inr x)
    obtain chunk s1 where x: "x = (chunk, s1)" by (cases x)
    have s1: "s1 = s\<lparr>currentFile := ts, done' := (done' s \<or> t = Finish)\<rparr>"
      using run_thunk_state [OF Inr [unfolded x]] by simp
    let ?s2 = "snd (push sink chunk s1)"
    have s2: "?s2 = s\<lparr>currentFile := ts, done' := (done' s \<or> t = Finish),
                       pushed := pushed s @ [chunk]\<rparr>"
      by (simp add: push_def s1)
    show ?thesis
    proof (cases "fst (push sink chunk s1)")
      case False
      with Suc.prems q Inr x have "r = Inr (currentFile ?s2 = [])" "s' = ?s2"
        by (auto simp: pushFileUntilFull_Cons)
      then show ?thesis using q by (auto simp: s2)
    next
      case True
      with Suc.prems q Inr x have rec: "pushFileUntilFull sink ?s2 = (r, s')"
        by (simp add: pushFileUntilFull_Cons)
      have "n = length (currentFile ?s2)" using Suc.hyps(2) q by (simp add: s2)
      from Suc.hyps(1) [OF this rec] show ?thesis using q by (auto simp: s2)
    qed
  qed
qed

lemma pushNextBlock_measure:
  assumes "(Resolved True, s') = pushNextBlock sink s" and "\<not> done' s"
  shows "(done' s' \<longrightarrow> 2 * length (vmdkParser s') < Suc (2 * length (vmdkParser s))) \<and>
         (\<not> done' s' \<longrightarrow> length (vmdkParser s') < length (vmdkParser s))"
proof (cases "vmdkParser s")
  case Nil
  let ?s1 = "filePadding (int (size' s) - int (position s)) s"
  let ?s3 = "?s1\<lparr>currentFile := currentFile ?s1 @ [FooterBytes, Finish]\<rparr>"
  from assms(1) [symmetric] Nil have f: "pushFileUntilFull sink ?s3 = (Inr True, s')"
    by (auto simp: pushNextBlock_def async_def Let_def split: sum.splits prod.splits)
  have v: "vmdkParser ?s3 = vmdkParser s" by (simp add: filePadding_def Let_def)
  from pushFileUntilFull_frame [OF f] have "done' s'" "vmdkParser s' = vmdkParser s"
    using v by simp_all
  then show ?thesis by simp
next
  case (Cons g rest)
  obtain offset buf where g: "g = (offset, buf)" by (cases g)
  from assms(1) [symmetric] Cons g obtain s4 where f: "pushFileUntilFull sink s4 = (Inr True, s')"
    and v: "vmdkParser s4 = rest"
    by (auto simp: pushNextBlock_def async_def Let_def filePadding_def
             split: sum.splits prod.splits if_splits)
  from pushFileUntilFull_frame [OF f] v have "vmdkParser s' = rest" by simp
  then show ?thesis using Cons by simp
qed

function pushNextUntilFull ::
  "sink \<Rightarrow> ReadableRawVHDStream \<Rightarrow> unit promise \<times> ReadableRawVHDStream" where
  "pushNextUntilFull sink s =
     (if done' s then (Resolved (), s)
      else (case pushNextBlock sink s of
              (Rejected e, s') \<Rightarrow> (Rejected e, s')
            | (Resolved again, s') \<Rightarrow>
                if again then pushNextUntilFull sink s' else (Resolved (), s')))"
  by pat_completeness auto
termination
  apply (relation "measure (\<lambda>(sink, s). 2 * length (vmdkParser s) + (if done' s then 0 else 1))")
   apply simp
  apply simp
  apply (erule pushNextBlock_measure)
  apply assumption
  done

declare pushNextUntilFull.simps [simp del]

text \<open>
  \<open>_read\<close> is the one entry that is not \<open>async\<close>: what it calls directly can throw to
  the caller. The promise of \<open>pushNextUntilFull\<close> is followed to its settlement: resolved,
  \<open>busy\<close> is cleared; rejected, the \<open>catch\<close> queues the emission of the error.
\<close>

definition Readable_read ::
  "sink \<Rightarrow> ReadableRawVHDStream \<Rightarrow> (error + unit) \<times> ReadableRawVHDStream" where
  "Readable_read sink s =
     (if busy s \<or> done' s then (Inr (), s)
      else (case pushFileUntilFull sink s of
              (Inl e, s1) \<Rightarrow> (Inl e, s1)
            | (Inr drained, s1) \<Rightarrow>
                if drained then
                  (case pushNextUntilFull sink (s1\<lparr>busy := True\<rparr>) of
                     (Resolved u, s2) \<Rightarrow> (Inr (), s2\<lparr>busy := False\<rparr>)
                   | (Rejected e, s2) \<Rightarrow> (Inr (), s2\<lparr>nextTick := nextTick s2 @ [Thrown e]\<rparr>))
                else (Inr (), s1)))"

text \<open>The turn of the event loop that runs the queued callbacks.\<close>

definition run_nextTick :: "ReadableRawVHDStream \<Rightarrow> ReadableRawVHDStream" where
  "run_nextTick s = s\<lparr>errorEvents := errorEvents s @ nextTick s, nextTick := []\<rparr>"

text \<open>The consumer asks for data \<open>n\<close> times.\<close>

fun drive :: "nat \<Rightarrow> sink \<Rightarrow> ReadableRawVHDStream \<Rightarrow> ReadableRawVHDStream" where
  "drive 0 sink s = s"
| "drive (Suc n) sink s = drive n sink (snd (Readable_read sink s))"

text \<open>The bytes that went down the stream, in order.\<close>

definition emitted_bytes :: "ReadableRawVHDStream \<Rightarrow> byte list" where
  "emitted_bytes s = concat (map (\<lambda>c. case c of None \<Rightarrow> [] | Some b \<Rightarrow> b) (pushed s))"

subsection \<open>Stand-ins for the examples\<close>

text \<open>
  A stand-in for the struct codec, enough to give the examples concrete footers and
  headers: a structure is laid out as its cookie followed by zero bytes, up to 512 bytes
  for a footer and 1024 for a header, and the checksum is left out.
\<close>

definition stub_lib :: vhd_lib where
  "stub_lib =
     \<lparr>computeGeometryForSize =
        (\<lambda>n. \<lparr>cylinders = n div 516096, heads = 16, sectorsPerTrackCylinder = 63,
              actualSize = n\<rparr>),
      pack = (\<lambda>st fields.
        (case st of
           fuFooter \<Rightarrow> map (of_nat \<circ> of_char) footerCookie @ replicate 504 0
         | fuHeader \<Rightarrow> map (of_nat \<circ> of_char) headerCookie @ replicate 1016 0)),
      struct_size = (\<lambda>st. case st of fuFooter \<Rightarrow> 512 | fuHeader \<Rightarrow> 1024),
      checksumStruct = (\<lambda>buf st. buf)\<rparr>"

text \<open>The grains \<open>(0, "AA")\<close> and \<open>(4, "BB")\<close>.\<close>

definition two_grains :: "(nat \<times> byte list) list" where
  "two_grains = [(0, [65, 65]), (4, [66, 66])]"

text \<open>A builder for a disk of two blocks, as the constructor makes it.\<close>

definition demo_file :: VHDFile where
  "demo_file =
     \<lparr>geomtry = \<lparr>cylinders = 8, heads = 16, sectorsPerTrackCylinder = 63,
                  actualSize = 4194304\<rparr>,
      timestamp = 7, blockSize = 2097152,
      sparseFile =
        \<lparr>table = \<lparr>entryCount = 2, buffer = replicate 512 255, entries = (\<lambda>i. None)\<rparr>,
         blockSize = 2097152, startOffset = 4\<rparr>\<rparr>"

text \<open>The same builder after two bytes were written into its second block.\<close>

definition demo_written :: VHDFile where
  "demo_written = snd (VHDFile_writeBuffer demo_file [1, 2] 2097157)"

text \<open>
  The same builder after one byte was written at the first position past the capacity of
  the disk.
\<close>

definition demo_overflow :: VHDFile where
  "demo_overflow = snd (VHDFile_writeBuffer demo_file [9] 4194304)"

text \<open>
  The chunks the converter pushes for these two grains and a capacity of 8 bytes, and the
  stream after the first \<open>k\<close> of them went out, for the values of \<open>k\<close> at which a call
  of \<open>_read\<close> can return.
\<close>

definition two_grains_chunks :: "vhd_lib \<Rightarrow> nat \<Rightarrow> byte list option list" where
  "two_grains_chunks lib now =
     [Some [65, 65], Some [0, 0], Some [66, 66], Some [0, 0],
      Some (createFooter lib 8 now (computeGeometryForSize lib 8) HARD_DISK_TYPE_FIXED Undefined),
      None]"

definition two_grains_after :: "vhd_lib \<Rightarrow> nat \<Rightarrow> nat \<Rightarrow> ReadableRawVHDStream" where
  "two_grains_after lib now k =
     \<lparr>size' = 8,
      footer = createFooter lib 8 now (computeGeometryForSize lib 8) HARD_DISK_TYPE_FIXED Undefined,
      position = (if k = 0 then 0 else 6),
      vmdkParser = (if k = 0 then two_grains else []),
      done' = (k = 6), busy = False,
      currentFile = (if k = 2 then [Grain [66, 66]]
                     else if k = 4 then [FooterBytes, Finish]
                     else if k = 5 then [Finish] else []),
      pushed = take k (two_grains_chunks lib now),
      nextTick = [], errorEvents = []\<rparr>"

text \<open>A consumer that always wants more.\<close>

definition eager_sink :: sink where
  "eager_sink k = True"

text \<open>
  The stream for the grains \<open>(4, "BB")\<close> and \<open>(0, "AA")\<close>, out of order, after the first
  of them went out.
\<close>

definition unordered_stream :: ReadableRawVHDStream where
  "unordered_stream =
     \<lparr>size' = 8,
      footer = createFooter stub_lib 8 0 (computeGeometryForSize stub_lib 8)
                 HARD_DISK_TYPE_FIXED Undefined,
      position = 6, vmdkParser = [(0, [65, 65])], done' = False, busy = False,
      currentFile = [], pushed = [Some [0, 0, 0, 0], Some [66, 66]],
      nextTick = [], errorEvents = []\<rparr>"

section \<open>Properties of merge\<close>

lemma queries_append [simp]: "queries (xs @ ys) = queries xs @ queries ys"
  by (induction xs rule: queries.induct) auto

lemma coalesced_append [simp]: "coalesced (xs @ ys) = coalesced xs @ coalesced ys"
  by (induction xs rule: coalesced.induct) auto

lemma reported_append [simp]: "reported (xs @ ys) = reported xs @ reported ys"
  by (induction xs rule: reported.induct) auto

lemma leaked_append [simp]: "leaked (xs @ ys) hs = leaked ys (leaked xs hs)"
  by (induction xs hs rule: leaked.induct) auto



lemma coalesce_loop_done:
  "\<not> i < m \<Longrightarrow> coalesce_loop io i m acc r = (Inr acc, r)"
  by (simp add: coalesce_loop.simps)

lemma coalesce_loop_skip:
  "i < m \<Longrightarrow> \<not> containsBlock io i (world r) \<Longrightarrow>
   coalesce_loop io i m acc r =
     coalesce_loop io (Suc i) m acc (r\<lparr>trace := trace r @ [ContainsBlock i False]\<rparr>)"
  by (simp add: coalesce_loop.simps [of io i])

lemma coalesce_loop_fail:
  "i < m \<Longrightarrow> containsBlock io i (world r) \<Longrightarrow> coalesceBlock io i (world r) = (Inl e, w') \<Longrightarrow>
   coalesce_loop io i m acc r =
     (Inl e, r\<lparr>world := w', trace := trace r @ [ContainsBlock i True, CoalesceBlock i None]\<rparr>)"
  by (simp add: coalesce_loop.simps [of io i] call_def)

lemma coalesce_loop_step:
  "i < m \<Longrightarrow> containsBlock io i (world r) \<Longrightarrow> coalesceBlock io i (world r) = (Inr n, w') \<Longrightarrow>
   coalesce_loop io i m acc r =
     coalesce_loop io (Suc i) m (acc + n)
       (r\<lparr>world := w', trace := trace r @ [ContainsBlock i True, CoalesceBlock i (Some n)]\<rparr>)"
  by (simp add: coalesce_loop.simps [of io i] call_def)

lemma coalesce_loop_trace:
  "coalesce_loop io i m acc r = (res, r') \<Longrightarrow>
     \<exists>es. trace r' = trace r @ es \<and> walk_ok i m acc res es"
proof (induction "m - i" arbitrary: i acc r)
  case 0
  then have "\<not> i < m" by simp
  with 0 show ?case by (auto simp: coalesce_loop_done walk_ok_def)
next
  case (Suc k)
  then have lt: "i < m" and k: "k = m - Suc i" by auto
  have up: "[i..<m] = i # [Suc i..<m]" using lt by (simp add: upt_conv_Cons)
  show ?case
  proof (cases "containsBlock io i (world r)")
    case False
    from Suc.prems have "coalesce_loop io (Suc i) m acc (r\<lparr>trace := trace r @ [ContainsBlock i False]\<rparr>) = (res, r')"
      by (simp add: coalesce_loop_skip [OF lt False])
    from Suc.hyps(1) [OF k this] obtain es where
      es: "trace r' = (trace r @ [ContainsBlock i False]) @ es" "walk_ok (Suc i) m acc res es" by auto
    have "walk_ok i m acc res (ContainsBlock i False # es)"
      using es(2) by (auto simp: walk_ok_def up split: sum.splits)
    with es(1) show ?thesis by auto
  next
    case True
    obtain x w' where c: "coalesceBlock io i (world r) = (x, w')"
      by (cases "coalesceBlock io i (world r)")
    show ?thesis
    proof (cases x)
      case (Inl e)
      from Suc.prems have "res = Inl e" "trace r' = trace r @ [ContainsBlock i True, CoalesceBlock i None]"
        using coalesce_loop_fail [OF lt True c [unfolded Inl]] by auto
      then show ?thesis by (auto simp: walk_ok_def)
    next
      case (Inr n)
      from Suc.prems have "coalesce_loop io (Suc i) m (acc + n)
          (r\<lparr>world := w', trace := trace r @ [ContainsBlock i True, CoalesceBlock i (Some n)]\<rparr>) = (res, r')"
        using coalesce_loop_step [OF lt True c [unfolded Inr]] by simp
      from Suc.hyps(1) [OF k this] obtain es where
        es: "trace r' = (trace r @ [ContainsBlock i True, CoalesceBlock i (Some n)]) @ es"
            "walk_ok (Suc i) m (acc + n) res es" by auto
      have "walk_ok i m acc res (ContainsBlock i True # CoalesceBlock i (Some n) # es)"
        using es(2) by (auto simp: walk_ok_def up split: sum.splits)
      with es(1) show ?thesis by auto
    qed
  qed
qed




lemma reads_append [simp]: "reads ro (xs @ ys) = reads ro xs @ reads ro ys"
  by (induction ro xs rule: reads.induct) auto

lemma written_append [simp]: "written (xs @ ys) = written xs @ written ys"
  by (induction xs rule: written.induct) auto

lemma block_events_reads: "\<forall>e \<in> set es. block_event e \<Longrightarrow> reads ro es = [] \<and> written es = []"
proof (induction es)
  case Nil
  show ?case by simp
next
  case (Cons e es)
  then show ?case by (cases e) auto
qed

lemma call_Inr:
  "call op ev r = (Inr a, r') \<Longrightarrow>
     \<exists>w'. op (world r) = (Inr a, w') \<and> r' = r\<lparr>world := w', trace := trace r @ [ev (Some a)]\<rparr>"
  by (auto simp: call_def split: prod.splits)

lemma both_call_Inr:
  "both (call f ev1) (call g ev2) r = (Inr (a, b), r') \<Longrightarrow>
     \<exists>w1 w2. f (world r) = (Inr a, w1) \<and> g w1 = (Inr b, w2) \<and>
       r' = r\<lparr>world := w2, trace := trace r @ [ev1 (Some a), ev2 (Some b)]\<rparr>"
  by (auto simp: both_def call_def split: prod.splits sum.splits)







text \<open>
  Claim C6. When both files open and both headers and footers are read, and the block
  sizes differ, or the parent is neither differencing nor dynamic, or the child is not
  differencing, then merge fails. At that point the only calls made are the two opens and
  the two reads, followed by the two closes: no allocation table was read, and
  \<open>ensureBatSize\<close>, \<open>coalesceBlock\<close> and \<open>writeFooter\<close> were never called. The
  error is the assertion's unless closing a file fails.
\<close>

theorem merge_rejects_before_mutation:
  assumes "openFile io Parent w = (Inr pfd, w1)"
    and "openFile io Child w1 = (Inr cfd, w2)"
    and "readHeaderAndFooter io Parent pfd w2 = (Inr (ph, pf), w3)"
    and "readHeaderAndFooter io Child cfd w3 = (Inr (ch, cf), w4)"
    and "header.blockSize ch \<noteq> header.blockSize ph \<or>
         (diskType pf \<noteq> DISK_TYPE_DIFFERENCING \<and> diskType pf \<noteq> DISK_TYPE_DYNAMIC) \<or>
         diskType cf \<noteq> DISK_TYPE_DIFFERENCING"
  shows "(\<exists>e. fst (merge io w) = Inl e) \<and>
         trace (snd (merge io w)) =
           [OpenFile Parent (Some pfd), OpenFile Child (Some cfd),
            ReadHeaderAndFooter Parent (Some (ph, pf)), ReadHeaderAndFooter Child (Some (ch, cf)),
            CloseFile Child cfd, CloseFile Parent pfd] \<and>
         world (snd (merge io w)) =
           snd (closeFile io Parent pfd (snd (closeFile io Child cfd w4))) \<and>
         (fst (closeFile io Child cfd w4) = Inr () \<and>
          fst (closeFile io Parent pfd (snd (closeFile io Child cfd w4))) = Inr ()
            \<longrightarrow> fst (merge io w) = Inl AssertionError)"
proof -
  let ?r2 = "\<lparr>world = w2, trace = [OpenFile Parent (Some pfd), OpenFile Child (Some cfd)]\<rparr>"
  let ?r4 = "\<lparr>world = w4, trace = [OpenFile Parent (Some pfd), OpenFile Child (Some cfd),
            ReadHeaderAndFooter Parent (Some (ph, pf)), ReadHeaderAndFooter Child (Some (ch, cf))]\<rparr>"
  have body: "merge_body io pfd cfd ?r2 = (Inl AssertionError, ?r4)"
    using assms(3-5) by (auto simp: merge_body_def both_def call_def)
  obtain c1 w5 where c1: "closeFile io Child cfd w4 = (c1, w5)"
    by (cases "closeFile io Child cfd w4")
  obtain c2 w6 where c2: "closeFile io Parent pfd w5 = (c2, w6)"
    by (cases "closeFile io Parent pfd w5")
  have "merge io w =
          (case c2 of Inl e \<Rightarrow> Inl e
           | Inr _ \<Rightarrow> (case c1 of Inl e \<Rightarrow> Inl e | Inr _ \<Rightarrow> Inl AssertionError),
           \<lparr>world = w6, trace = trace ?r4 @ [CloseFile Child cfd, CloseFile Parent pfd]\<rparr>)"
    using assms(1,2) body c1 c2
    by (simp add: merge_def try_finally_def call_def split: sum.splits)
  then show ?thesis
    using c1 c2 by (auto split: sum.splits)
qed

theorem merge_rejects_before_mutation_witness:
  "merge (demo_io 3 3 2097152) 0 =
     (Inl AssertionError,
      \<lparr>world = 0,
       trace = [OpenFile Parent (Some 3), OpenFile Child (Some 4),
                ReadHeaderAndFooter Parent
                  (Some (\<lparr>maxTableEntries = 2, header.blockSize = 2097152\<rparr>, demo_footer 3 2)),
                ReadHeaderAndFooter Child
                  (Some (\<lparr>maxTableEntries = 3, header.blockSize = 2097152\<rparr>, demo_footer 3 3)),
                CloseFile Child 4, CloseFile Parent 3]\<rparr>)"
proof -
  have o1: "openFile (demo_io 3 3 2097152) Parent 0 = (Inr 3, 0)"
    and o2: "openFile (demo_io 3 3 2097152) Child 0 = (Inr 4, 0)"
    and r1: "readHeaderAndFooter (demo_io 3 3 2097152) Parent 3 0 =
               (Inr (\<lparr>maxTableEntries = 2, header.blockSize = 2097152\<rparr>, demo_footer 3 2), 0)"
    and r2: "readHeaderAndFooter (demo_io 3 3 2097152) Child 4 0 =
               (Inr (\<lparr>maxTableEntries = 3, header.blockSize = 2097152\<rparr>, demo_footer 3 3), 0)"
    by (simp_all add: demo_io_def)
  have v: "header.blockSize \<lparr>maxTableEntries = 3, header.blockSize = 2097152\<rparr> \<noteq>
             header.blockSize \<lparr>maxTableEntries = 2, header.blockSize = 2097152\<rparr> \<or>
           (diskType (demo_footer 3 2) \<noteq> DISK_TYPE_DIFFERENCING \<and>
            diskType (demo_footer 3 2) \<noteq> DISK_TYPE_DYNAMIC) \<or>
           diskType (demo_footer 3 3) \<noteq> DISK_TYPE_DIFFERENCING"
    by (simp add: demo_footer_def DISK_TYPE_DIFFERENCING_def)
  from merge_rejects_before_mutation [OF o1 o2 r1 r2 v] show ?thesis
    by (cases "merge (demo_io 3 3 2097152) 0") (simp add: demo_io_def)
qed

lemma call_unit:
  "call op ev r = (Inr a, r') \<Longrightarrow>
     op (world r) = (Inr a, world r') \<and> trace r' = trace r @ [ev (Some a)]"
  by (auto simp: call_def split: prod.splits)

lemma merge_body_worlds:
  assumes "merge_body io p c r = (Inr n, r')"
  shows "\<exists>ph pf ch cf w3 w4 w5 w6 w7 r8.
           readHeaderAndFooter io Parent p (world r) = (Inr (ph, pf), w3) \<and>
           readHeaderAndFooter io Child c w3 = (Inr (ch, cf), w4) \<and>
           readBlockAllocationTable io Parent p w4 = (Inr (), w5) \<and>
           readBlockAllocationTable io Child c w5 = (Inr (), w6) \<and>
           ensureBatSize io (maxTableEntries ch) w6 = (Inr (), w7) \<and>
           coalesce_loop io 0 (maxTableEntries ch) 0
             (r\<lparr>world := w7,
                trace := trace r @
                  [ReadHeaderAndFooter Parent (Some (ph, pf)),
                   ReadHeaderAndFooter Child (Some (ch, cf)),
                   ReadBlockAllocationTable Parent, ReadBlockAllocationTable Child,
                   EnsureBatSize (maxTableEntries ch)]\<rparr>) = (Inr n, r8) \<and>
           writeFooter io (merge_footer pf cf) (world r8) = (Inr (), world r') \<and>
           trace r' = trace r8 @ [WriteFooter (merge_footer pf cf)]"
  using assms
  apply (simp add: merge_body_def split: prod.splits sum.splits if_splits)
  apply (auto dest!: both_call_Inr call_Inr)
  done

lemma merge_worlds:
  assumes "merge io w = (Inr n, r)"
  shows "\<exists>pfd cfd ph pf ch cf w1 w2 w3 w4 w5 w6 w7 r8 w9 w10.
           openFile io Parent w = (Inr pfd, w1) \<and>
           openFile io Child w1 = (Inr cfd, w2) \<and>
           readHeaderAndFooter io Parent pfd w2 = (Inr (ph, pf), w3) \<and>
           readHeaderAndFooter io Child cfd w3 = (Inr (ch, cf), w4) \<and>
           readBlockAllocationTable io Parent pfd w4 = (Inr (), w5) \<and>
           readBlockAllocationTable io Child cfd w5 = (Inr (), w6) \<and>
           ensureBatSize io (maxTableEntries ch) w6 = (Inr (), w7) \<and>
           coalesce_loop io 0 (maxTableEntries ch) 0
             \<lparr>world = w7,
              trace =
                [OpenFile Parent (Some pfd), OpenFile Child (Some cfd),
                 ReadHeaderAndFooter Parent (Some (ph, pf)),
                 ReadHeaderAndFooter Child (Some (ch, cf)),
                 ReadBlockAllocationTable Parent, ReadBlockAllocationTable Child,
                 EnsureBatSize (maxTableEntries ch)]\<rparr> = (Inr n, r8) \<and>
           writeFooter io (merge_footer pf cf) (world r8) = (Inr (), w9) \<and>
           closeFile io Child cfd w9 = (Inr (), w10) \<and>
           closeFile io Parent pfd w10 = (Inr (), world r) \<and>
           trace r = trace r8 @
             [WriteFooter (merge_footer pf cf), CloseFile Child cfd, CloseFile Parent pfd]"
proof -
  from assms obtain pfd r1 where o1: "call (openFile io Parent) (OpenFile Parent) \<lparr>world = w, trace = []\<rparr> = (Inr pfd, r1)"
    by (auto simp: merge_def split: prod.splits sum.splits)
  from assms o1 obtain res r3 where
    inner: "(case call (openFile io Child) (OpenFile Child) r1 of
               (Inl e, r2) \<Rightarrow> (Inl e, r2)
             | (Inr childFd, r2) \<Rightarrow>
                 try_finally (merge_body io pfd childFd r2)
                   (call (closeFile io Child childFd) (\<lambda>_. CloseFile Child childFd))) = (res, r3)"
    and cp: "call (closeFile io Parent pfd) (\<lambda>_. CloseFile Parent pfd) r3 = (Inr (), r)"
    and res: "res = Inr n"
    by (auto simp: merge_def try_finally_def split: prod.splits sum.splits)
  from inner res obtain cfd r2 where
    o2: "call (openFile io Child) (OpenFile Child) r1 = (Inr cfd, r2)"
    and tf: "try_finally (merge_body io pfd cfd r2)
               (call (closeFile io Child cfd) (\<lambda>_. CloseFile Child cfd)) = (Inr n, r3)"
    by (auto split: prod.splits sum.splits)
  from tf obtain rb where
    b: "merge_body io pfd cfd r2 = (Inr n, rb)"
    and cc: "call (closeFile io Child cfd) (\<lambda>_. CloseFile Child cfd) rb = (Inr (), r3)"
    by (auto simp: try_finally_def split: prod.splits sum.splits)
  note 1 = call_unit [OF o1] and 2 = call_unit [OF o2] and 3 = call_unit [OF cc]
    and 4 = call_unit [OF cp]
  from merge_body_worlds [OF b] obtain ph pf ch cf w3 w4 w5 w6 w7 r8 where
    m: "readHeaderAndFooter io Parent pfd (world r2) = (Inr (ph, pf), w3)"
       "readHeaderAndFooter io Child cfd w3 = (Inr (ch, cf), w4)"
       "readBlockAllocationTable io Parent pfd w4 = (Inr (), w5)"
       "readBlockAllocationTable io Child cfd w5 = (Inr (), w6)"
       "ensureBatSize io (maxTableEntries ch) w6 = (Inr (), w7)"
       "coalesce_loop io 0 (maxTableEntries ch) 0
             (r2\<lparr>world := w7,
                 trace := trace r2 @
                   [ReadHeaderAndFooter Parent (Some (ph, pf)),
                    ReadHeaderAndFooter Child (Some (ch, cf)),
                    ReadBlockAllocationTable Parent, ReadBlockAllocationTable Child,
                    EnsureBatSize (maxTableEntries ch)]\<rparr>) = (Inr n, r8)"
       "writeFooter io (merge_footer pf cf) (world r8) = (Inr (), world rb)"
       "trace rb = trace r8 @ [WriteFooter (merge_footer pf cf)]"
    by blast
  have t2: "trace r2 = [OpenFile Parent (Some pfd), OpenFile Child (Some cfd)]"
    using 1 2 by simp
  have r2: "r2\<lparr>world := w7,
                 trace := trace r2 @
                   [ReadHeaderAndFooter Parent (Some (ph, pf)),
                    ReadHeaderAndFooter Child (Some (ch, cf)),
                    ReadBlockAllocationTable Parent, ReadBlockAllocationTable Child,
                    EnsureBatSize (maxTableEntries ch)]\<rparr> =
            \<lparr>world = w7,
              trace =
                [OpenFile Parent (Some pfd), OpenFile Child (Some cfd),
                 ReadHeaderAndFooter Parent (Some (ph, pf)),
                 ReadHeaderAndFooter Child (Some (ch, cf)),
                 ReadBlockAllocationTable Parent, ReadBlockAllocationTable Child,
                 EnsureBatSize (maxTableEntries ch)]\<rparr>"
    using t2 by (cases r2) simp
  have tr: "trace r = trace r8 @
             [WriteFooter (merge_footer pf cf), CloseFile Child cfd, CloseFile Parent pfd]"
    using 3 4 m(8) by simp
  from 1 2 3 4 m(1-5) m(6) [unfolded r2] m(7) tr show ?thesis
    by (simp del: ex_simps)
qed

lemma disk_merge:
  "merge disk_io (demo_footer 3 2) =
     (Inr 2048,
      \<lparr>world = merge_footer (demo_footer 3 2) (demo_footer 4 3),
       trace = [OpenFile Parent (Some 3), OpenFile Child (Some 4),
                ReadHeaderAndFooter Parent (Some (\<lparr>maxTableEntries = 2, header.blockSize = 2097152\<rparr>, demo_footer 3 2)),
                ReadHeaderAndFooter Child (Some (\<lparr>maxTableEntries = 3, header.blockSize = 2097152\<rparr>, demo_footer 4 3)),
                ReadBlockAllocationTable Parent, ReadBlockAllocationTable Child, EnsureBatSize 3,
                ContainsBlock 0 True, CoalesceBlock 0 (Some 512), ContainsBlock 1 False,
                ContainsBlock 2 True, CoalesceBlock 2 (Some 1536),
                WriteFooter (merge_footer (demo_footer 3 2) (demo_footer 4 3)),
                CloseFile Child 4, CloseFile Parent 3]\<rparr>)"
  by (simp add: merge_def try_finally_def call_def merge_body_def both_def disk_io_def
        coalesce_loop.simps DISK_TYPE_DYNAMIC_def DISK_TYPE_DIFFERENCING_def demo_footer_def)

text \<open>
  Claim C7. A merge that returns has called \<open>writeFooter\<close> of the parent exactly once,
  as the last call before the two files are closed. The call was made in the world the
  block loop had left, with the parent's footer as \<open>readHeaderAndFooter\<close> gave it, in
  which \<open>currentSize\<close>, \<open>diskGeometry\<close>, \<open>originalSize\<close>, \<open>timestamp\<close> and
  \<open>uuid\<close> are those of the child's footer as read and every other field is the
  parent's. The call resolved, and the world merge ends in is the world this call
  produced, after the child's file and then the parent's file were closed in it.
\<close>

theorem merge_writes_child_metadata:
  assumes "merge io w = (Inr n, r)"
  shows "\<exists>ph pf ch cf f pre cfd pfd w1 w2 w3 w4 w5 w6 w7 r8 w9 w10.
           reads Parent (trace r) = [(ph, pf)] \<and> reads Child (trace r) = [(ch, cf)] \<and>
           written (trace r) = [f] \<and>
           trace r = pre @ [WriteFooter f, CloseFile Child cfd, CloseFile Parent pfd] \<and>
           currentSize f = currentSize cf \<and> diskGeometry f = diskGeometry cf \<and>
           originalSize f = originalSize cf \<and> footer.timestamp f = footer.timestamp cf \<and>
           uuid f = uuid cf \<and>
           cookie f = cookie pf \<and> features f = features pf \<and>
           fileFormatVersion f = fileFormatVersion pf \<and> dataOffset f = dataOffset pf \<and>
           creatorApplication f = creatorApplication pf \<and>
           creatorHostOs f = creatorHostOs pf \<and> diskType f = diskType pf \<and>
           checksum f = checksum pf \<and>
           openFile io Parent w = (Inr pfd, w1) \<and>
           openFile io Child w1 = (Inr cfd, w2) \<and>
           readHeaderAndFooter io Parent pfd w2 = (Inr (ph, pf), w3) \<and>
           readHeaderAndFooter io Child cfd w3 = (Inr (ch, cf), w4) \<and>
           readBlockAllocationTable io Parent pfd w4 = (Inr (), w5) \<and>
           readBlockAllocationTable io Child cfd w5 = (Inr (), w6) \<and>
           ensureBatSize io (maxTableEntries ch) w6 = (Inr (), w7) \<and>
           coalesce_loop io 0 (maxTableEntries ch) 0
             \<lparr>world = w7,
              trace =
                [OpenFile Parent (Some pfd), OpenFile Child (Some cfd),
                 ReadHeaderAndFooter Parent (Some (ph, pf)),
                 ReadHeaderAndFooter Child (Some (ch, cf)),
                 ReadBlockAllocationTable Parent, ReadBlockAllocationTable Child,
                 EnsureBatSize (maxTableEntries ch)]\<rparr> = (Inr n, r8) \<and>
           pre = trace r8 \<and>
           writeFooter io f (world r8) = (Inr (), w9) \<and>
           closeFile io Child cfd w9 = (Inr (), w10) \<and>
           closeFile io Parent pfd w10 = (Inr (), world r)"
proof -
  from merge_worlds [OF assms] obtain pfd cfd ph pf ch cf w1 w2 w3 w4 w5 w6 w7 r8 w9 w10 where
    m: "openFile io Parent w = (Inr pfd, w1)"
       "openFile io Child w1 = (Inr cfd, w2)"
       "readHeaderAndFooter io Parent pfd w2 = (Inr (ph, pf), w3)"
       "readHeaderAndFooter io Child cfd w3 = (Inr (ch, cf), w4)"
       "readBlockAllocationTable io Parent pfd w4 = (Inr (), w5)"
       "readBlockAllocationTable io Child cfd w5 = (Inr (), w6)"
       "ensureBatSize io (maxTableEntries ch) w6 = (Inr (), w7)"
    and lp: "coalesce_loop io 0 (maxTableEntries ch) 0
             \<lparr>world = w7,
              trace =
                [OpenFile Parent (Some pfd), OpenFile Child (Some cfd),
                 ReadHeaderAndFooter Parent (Some (ph, pf)),
                 ReadHeaderAndFooter Child (Some (ch, cf)),
                 ReadBlockAllocationTable Parent, ReadBlockAllocationTable Child,
                 EnsureBatSize (maxTableEntries ch)]\<rparr> = (Inr n, r8)"
    and wf: "writeFooter io (merge_footer pf cf) (world r8) = (Inr (), w9)"
    and cl: "closeFile io Child cfd w9 = (Inr (), w10)"
       "closeFile io Parent pfd w10 = (Inr (), world r)"
    and tr: "trace r = trace r8 @
             [WriteFooter (merge_footer pf cf), CloseFile Child cfd, CloseFile Parent pfd]"
    by blast
  from coalesce_loop_trace [OF lp] obtain es where
    t8: "trace r8 =
             [OpenFile Parent (Some pfd), OpenFile Child (Some cfd),
              ReadHeaderAndFooter Parent (Some (ph, pf)), ReadHeaderAndFooter Child (Some (ch, cf)),
              ReadBlockAllocationTable Parent, ReadBlockAllocationTable Child,
              EnsureBatSize (maxTableEntries ch)] @ es"
    and ok: "walk_ok 0 (maxTableEntries ch) 0 (Inr n) es" by auto
  from ok have blk: "\<forall>e \<in> set es. block_event e" by (simp add: walk_ok_def)
  let ?f = "merge_footer pf cf"
  have 1: "reads Parent (trace r) = [(ph, pf)]" "reads Child (trace r) = [(ch, cf)]"
    "written (trace r) = [?f]"
    by (simp_all add: tr t8 block_events_reads [OF blk])
  have 3: "currentSize ?f = currentSize cf \<and> diskGeometry ?f = diskGeometry cf \<and>
           originalSize ?f = originalSize cf \<and> footer.timestamp ?f = footer.timestamp cf \<and>
           uuid ?f = uuid cf \<and>
           cookie ?f = cookie pf \<and> features ?f = features pf \<and>
           fileFormatVersion ?f = fileFormatVersion pf \<and> dataOffset ?f = dataOffset pf \<and>
           creatorApplication ?f = creatorApplication pf \<and>
           creatorHostOs ?f = creatorHostOs pf \<and> diskType ?f = diskType pf \<and>
           checksum ?f = checksum pf"
    by (simp add: merge_footer_def)
  from 1 tr 3 m lp wf cl show ?thesis by blast
qed

theorem merge_writes_child_metadata_witness:
  "merge disk_io (demo_footer 3 2) = (Inr 2048, snd (merge disk_io (demo_footer 3 2))) \<and>
   written (trace (snd (merge disk_io (demo_footer 3 2)))) =
     [\<lparr>cookie = ''conectix'', features = 2, fileFormatVersion = 65536, dataOffset = 512,
       footer.timestamp = 3, creatorApplication = ''xo  '', creatorHostOs = 1466511979,
       originalSize = 6291456, currentSize = 6291456,
       diskGeometry = \<lparr>cylinders = 3, heads = 4, sectorsPerTrackCylinder = 17\<rparr>,
       diskType = 3, checksum = 0, uuid = [3, 4]\<rparr>] \<and>
   world (snd (merge disk_io (demo_footer 3 2))) =
     \<lparr>cookie = ''conectix'', features = 2, fileFormatVersion = 65536, dataOffset = 512,
      footer.timestamp = 3, creatorApplication = ''xo  '', creatorHostOs = 1466511979,
      originalSize = 6291456, currentSize = 6291456,
      diskGeometry = \<lparr>cylinders = 3, heads = 4, sectorsPerTrackCylinder = 17\<rparr>,
      diskType = 3, checksum = 0, uuid = [3, 4]\<rparr>"
proof -
  let ?r = "snd (merge disk_io (demo_footer 3 2))"
  have h: "merge disk_io (demo_footer 3 2) = (Inr 2048, ?r)"
    by (simp add: disk_merge)
  have wr: "written (trace ?r) = [merge_footer (demo_footer 3 2) (demo_footer 4 3)]"
    by (simp add: disk_merge)
  from merge_writes_child_metadata [OF h] obtain f r8 w9 w10 cfd pfd where
    f: "written (trace ?r) = [f]"
    and w: "writeFooter disk_io f (world (r8 :: footer run)) = (Inr (), w9)"
      "closeFile disk_io Child cfd w9 = (Inr (), w10)"
      "closeFile disk_io Parent pfd w10 = (Inr (), world ?r)"
    by blast
  from w have "world ?r = f" by (simp add: disk_io_def)
  with f wr have "world ?r = merge_footer (demo_footer 3 2) (demo_footer 4 3)" by simp
  with h wr show ?thesis
    by (simp add: merge_footer_def demo_footer_def)
qed



section \<open>Properties of the sparse extent and of the image builder\<close>

lemma first_block_bounds:
  fixes bs offset :: nat
  assumes "0 < bs"
  shows "(offset div bs) * bs \<le> offset" and "offset < (offset div bs + 1) * bs"
    and "(offset div bs + 1) * bs - offset = bs - offset mod bs"
proof -
  have e: "offset = (offset div bs) * bs + offset mod bs" by simp
  have m: "offset mod bs < bs" using assms by simp
  show "(offset div bs) * bs \<le> offset" by simp
  show "offset < (offset div bs + 1) * bs" using assms by (simp add: dividend_less_times_div mult.commute)
  have "(offset div bs + 1) * bs = offset - offset mod bs + bs"
    by (simp add: minus_mod_eq_div_mult)
  then show "(offset div bs + 1) * bs - offset = bs - offset mod bs"
    using m by simp
qed

lemma later_block_bounds:
  fixes bs offset i :: nat
  assumes "0 < bs" "offset div bs < i"
  shows "offset < i * bs"
proof -
  have "offset < (offset div bs + 1) * bs" by (rule first_block_bounds(2) [OF assms(1)])
  also have "\<dots> \<le> i * bs" using assms(2) by (intro mult_le_mono1) simp
  finally show ?thesis .
qed

lemma slice_nat: "slice xs (int a) (int b) = take (b - a) (drop a xs)"
proof (cases "a \<le> length xs")
  case False
  then show ?thesis by (simp add: slice_def Let_def min_def)
next
  case True
  show ?thesis
  proof (cases "b \<le> length xs")
    case b: True
    have "nat (int b - int a) = b - a" by simp
    with True b show ?thesis by (simp add: slice_def Let_def min_def)
  next
    case b: False
    have "nat (int (length xs) - int a) = length xs - a" by simp
    moreover have "take (b - a) (drop a xs) = drop a xs" using b by simp
    ultimately show ?thesis using True b by (simp add: slice_def Let_def min_def)
  qed
qed

lemma slice_0: "slice xs 0 (int b) = take b xs"
  using slice_nat [of xs 0 b] by simp

lemma loop_split:
  fixes bs offset i :: nat
  assumes bs: "0 < bs" and i: "offset div bs \<le> i"
  shows "(if int offset - int i * int bs > 0
          then (slice buf 0 ((int i + 1) * int bs - int offset), nat (int offset - int i * int bs))
          else (slice buf (- (int offset - int i * int bs)) ((int i + 1) * int bs - int offset), 0))
         = (sub_buffer bs buf offset i, in_block_offset bs offset i)"
proof (cases "i = offset div bs")
  case True
  have le: "i * bs \<le> offset" and lt: "offset < (i + 1) * bs"
    using first_block_bounds [OF bs, of offset] True by auto
  have "int offset = int i * int bs + int (offset mod bs)"
    unfolding True by (metis mult.commute mult_div_mod_eq of_nat_add of_nat_mult)
  then have delta: "int offset - int i * int bs = int (offset mod bs)" by simp
  have en: "(int i + 1) * int bs - int offset = int ((i + 1) * bs - offset)"
    using lt by (simp add: of_nat_diff algebra_simps)
  have sb: "sub_buffer bs buf offset i = take ((i + 1) * bs - offset) buf"
    using le by (simp add: sub_buffer_def max_def)
  have io: "in_block_offset bs offset i = offset mod bs"
    using True by (simp add: in_block_offset_def)
  show ?thesis
    unfolding delta en sb io by (cases "offset mod bs = 0") (simp_all add: slice_0)
next
  case False
  with i have gt: "offset div bs < i" by simp
  have lt: "offset < i * bs" by (rule later_block_bounds [OF bs gt])
  have delta: "- (int offset - int i * int bs) = int (i * bs - offset)"
    using lt by (simp add: of_nat_diff)
  have "int offset < int (i * bs)" using lt by (simp only: of_nat_less_iff)
  then have neg: "\<not> int offset - int i * int bs > 0" by simp
  have en: "(int i + 1) * int bs - int offset = int ((i + 1) * bs - offset)"
    using lt by (simp add: of_nat_diff algebra_simps)
  have w: "(i + 1) * bs - offset - (i * bs - offset) = bs" using lt by (simp add: algebra_simps)
  have sl: "slice buf (int (i * bs - offset)) (int ((i + 1) * bs - offset))
              = take bs (drop (i * bs - offset) buf)"
    by (simp only: slice_nat w)
  have sb: "sub_buffer bs buf offset i = take bs (drop (i * bs - offset) buf)"
    using lt by (simp add: sub_buffer_def max_def)
  have io: "in_block_offset bs offset i = 0"
    using False by (simp add: in_block_offset_def)
  show ?thesis
    unfolding if_not_P [OF neg] delta en sb io sl by (rule refl)
qed

lemma sub_buffer_fits:
  fixes bs offset i :: nat
  assumes bs: "0 < bs" and i: "offset div bs \<le> i"
  shows "length (sub_buffer bs buf offset i) + in_block_offset bs offset i \<le> bs"
proof (cases "i = offset div bs")
  case True
  have "(i + 1) * bs - max (i * bs) offset = bs - offset mod bs"
    using first_block_bounds [OF bs, of offset] True by (simp add: max_def)
  moreover have "offset mod bs < bs" using bs by simp
  ultimately show ?thesis using True
    by (simp add: sub_buffer_def in_block_offset_def)
next
  case False
  with i have gt: "offset div bs < i" by simp
  have lt: "offset < i * bs" by (rule later_block_bounds [OF bs gt])
  then have "(i + 1) * bs - max (i * bs) offset = bs" by (simp add: max_def)
  then show ?thesis using False by (simp add: sub_buffer_def in_block_offset_def)
qed

lemma writeBlock_ok:
  assumes "length b + off \<le> SparseExtent.blockSize ext"
  shows "writeBlock ext b i off =
           (None, ext\<lparr>table := (table ext)\<lparr>entries := (entries (table ext))
              (i \<mapsto> writeData (case entries (table ext) i of
                                  None \<Rightarrow> Block_new (SparseExtent.blockSize ext)
                                | Some b \<Rightarrow> b) b off)\<rparr>\<rparr>)"
  using assms by (simp add: writeBlock_def)

lemma writeBuffer_loop_step:
  assumes bs: "0 < SparseExtent.blockSize ext"
    and i: "offset div SparseExtent.blockSize ext \<le> i" and lt: "i < e"
  shows "writeBuffer_loop ext buf offset i e =
           writeBuffer_loop
             (ext\<lparr>table := (table ext)\<lparr>entries := (entries (table ext))
                (i \<mapsto> block_written ext buf offset i)\<rparr>\<rparr>) buf offset (Suc i) e"
proof -
  have fit: "length (sub_buffer (SparseExtent.blockSize ext) buf offset i) +
             in_block_offset (SparseExtent.blockSize ext) offset i \<le> SparseExtent.blockSize ext"
    by (rule sub_buffer_fits [OF bs i])
  show ?thesis
    apply (subst writeBuffer_loop.simps)
    apply (simp only: lt if_True Let_def loop_split [OF bs i] prod.case)
    apply (simp add: writeBlock_ok [OF fit] block_written_def)
    done
qed

lemma writeBuffer_loop_result:
  assumes "0 < SparseExtent.blockSize ext" and "offset div SparseExtent.blockSize ext \<le> i"
  shows "writeBuffer_loop ext buf offset i e =
           (None, ext\<lparr>table := (table ext)\<lparr>entries :=
              (\<lambda>j. if i \<le> j \<and> j < e then Some (block_written ext buf offset j)
                   else entries (table ext) j)\<rparr>\<rparr>)"
  using assms
proof (induction "e - i" arbitrary: ext i)
  case 0
  then have "\<not> i < e" by simp
  then have "(\<lambda>j. if i \<le> j \<and> j < e then Some (block_written ext buf offset j)
                   else entries (table ext) j) = entries (table ext)"
    by (intro ext) auto
  with \<open>\<not> i < e\<close> show ?case by (simp add: writeBuffer_loop.simps)
next
  case (Suc k)
  then have lt: "i < e" and k: "k = e - Suc i" by auto
  let ?ext1 = "ext\<lparr>table := (table ext)\<lparr>entries := (entries (table ext))
                (i \<mapsto> block_written ext buf offset i)\<rparr>\<rparr>"
  have bs1: "0 < SparseExtent.blockSize ?ext1" using Suc.prems(1) by simp
  have i1: "offset div SparseExtent.blockSize ?ext1 \<le> Suc i" using Suc.prems(2) by simp
  have same: "block_written ?ext1 buf offset j = block_written ext buf offset j" if "j \<noteq> i" for j
    using that by (simp add: block_written_def split: option.splits)
  have ent: "(\<lambda>j. if Suc i \<le> j \<and> j < e then Some (block_written ?ext1 buf offset j)
                   else entries (table ?ext1) j)
             = (\<lambda>j. if i \<le> j \<and> j < e then Some (block_written ext buf offset j)
                   else entries (table ext) j)"
  proof
    fix j
    show "(if Suc i \<le> j \<and> j < e then Some (block_written ?ext1 buf offset j)
           else entries (table ?ext1) j)
          = (if i \<le> j \<and> j < e then Some (block_written ext buf offset j)
             else entries (table ext) j)"
      using lt same [of j] by (cases "j = i") auto
  qed
  show ?case
    unfolding writeBuffer_loop_step [OF Suc.prems(1) Suc.prems(2) lt]
              Suc.hyps(1) [OF k bs1 i1] ent
    by simp
qed

lemma bitmapBuffer_writeData:
  assumes "bitmapSize b \<le> length (Block.buffer b)"
  shows "bitmapBuffer (writeData b buf off) = bitmapBuffer b"
  using assms by (simp add: writeData_def bitmapBuffer_def)

lemma bitmapBuffer_Block_new:
  "bitmapBuffer (Block_new bs) = replicate (bs div VHD_SECTOR_SIZE div 8) 255"
  "bitmapSize (Block_new bs) \<le> length (Block.buffer (Block_new bs))"
  by (simp_all add: Block_new_def bitmapBuffer_def Let_def)

lemma writeBuffer_result:
  assumes "0 < SparseExtent.blockSize ext"
  shows "writeBuffer ext buf offset =
           (None, ext\<lparr>table := (table ext)\<lparr>entries :=
              (\<lambda>i. if touched (SparseExtent.blockSize ext) buf offset i
                   then Some (block_written ext buf offset i)
                   else entries (table ext) i)\<rparr>\<rparr>)"
  using assms
  by (simp add: writeBuffer_def Let_def writeBuffer_loop_result touched_def)

lemma copy_nth:
  assumes "k < length tgt"
  shows "copy src tgt off ! k =
           (if off \<le> k \<and> k < off + length src then src ! (k - off) else tgt ! k)"
proof (cases "length tgt \<le> off")
  case True
  with assms show ?thesis by (simp add: copy_def)
next
  case False
  let ?n = "min (length src) (length tgt - off)"
  have c: "copy src tgt off = take off tgt @ take ?n src @ drop (off + ?n) tgt"
    using False by (simp add: copy_def Let_def)
  consider "k < off" | "off \<le> k" "k < off + ?n" | "off + ?n \<le> k" by linarith
  then show ?thesis
  proof cases
    case 1
    with False show ?thesis by (simp add: c nth_append)
  next
    case 2
    have l: "length (take off tgt) = off" using False by simp
    have n: "k - off < ?n" using 2 by linarith
    then have s: "k < off + length src" using 2(1) by auto
    have "(take off tgt @ take ?n src @ drop (off + ?n) tgt) ! k =
            (take ?n src @ drop (off + ?n) tgt) ! (k - off)"
      using 2(1) l by (simp only: nth_append) simp
    also have "\<dots> = take ?n src ! (k - off)"
      using n by (simp only: nth_append length_take) simp
    also have "\<dots> = src ! (k - off)" using n by (simp only: nth_take)
    finally show ?thesis using 2(1) s by (simp only: c) simp
  next
    case 3
    have l: "length (take off tgt) = off" using False by simp
    have ls: "length (take ?n src) = ?n" by simp
    have ns: "\<not> k < off + length src"
    proof
      assume "k < off + length src"
      with 3 have "?n = length tgt - off" by (simp add: min_def split: if_splits)
      with 3 assms False show False by simp
    qed
    have "(take off tgt @ take ?n src @ drop (off + ?n) tgt) ! k =
            (take ?n src @ drop (off + ?n) tgt) ! (k - off)"
      using 3 l by (simp only: nth_append) simp
    also have "\<dots> = drop (off + ?n) tgt ! (k - off - ?n)"
    proof -
      have "\<not> k - off < length (take ?n src)" unfolding ls using 3 by linarith
      then show ?thesis unfolding nth_append ls by (simp only: if_False)
    qed
    also have "\<dots> = tgt ! k" using 3 assms by simp
    finally show ?thesis using ns by (simp only: c) simp
  qed
qed

lemma dataBuffer_writeData:
  shows "length (dataBuffer (writeData b buf off)) = length (dataBuffer b)"
    and "k < length (dataBuffer b) \<Longrightarrow>
         dataBuffer (writeData b buf off) ! k =
           (if off \<le> k \<and> k < off + length buf then buf ! (k - off) else dataBuffer b ! k)"
proof -
  show "length (dataBuffer (writeData b buf off)) = length (dataBuffer b)"
    by (simp add: writeData_def dataBuffer_def bitmapBuffer_def copy_def Let_def min_def)
  assume k: "k < length (dataBuffer b)"
  then have "bitmapSize b \<le> length (Block.buffer b)" by (simp add: dataBuffer_def)
  then have "dataBuffer (writeData b buf off) = copy buf (dataBuffer b) off"
    by (simp add: writeData_def dataBuffer_def bitmapBuffer_def)
  then show "dataBuffer (writeData b buf off) ! k =
           (if off \<le> k \<and> k < off + length buf then buf ! (k - off) else dataBuffer b ! k)"
    using copy_nth [OF k] by simp
qed

lemma sub_buffer_nth:
  fixes bs offset i k :: nat
  assumes bs: "0 < bs" and i: "offset div bs \<le> i"
  shows "(in_block_offset bs offset i \<le> k \<and>
          k < in_block_offset bs offset i + length (sub_buffer bs buf offset i)) \<longleftrightarrow>
         (k < bs \<and> offset \<le> i * bs + k \<and> i * bs + k < offset + length buf)"
    and "k < bs \<Longrightarrow> offset \<le> i * bs + k \<Longrightarrow> i * bs + k < offset + length buf \<Longrightarrow>
         sub_buffer bs buf offset i ! (k - in_block_offset bs offset i) = buf ! (i * bs + k - offset)"
proof -
  show "(in_block_offset bs offset i \<le> k \<and>
          k < in_block_offset bs offset i + length (sub_buffer bs buf offset i)) \<longleftrightarrow>
         (k < bs \<and> offset \<le> i * bs + k \<and> i * bs + k < offset + length buf)"
  proof (cases "i = offset div bs")
    case True
    have o: "offset = i * bs + offset mod bs" unfolding True by simp
    have m: "offset mod bs < bs" using bs by simp
    have w: "(i + 1) * bs - max (i * bs) offset = bs - offset mod bs"
      using first_block_bounds [OF bs, of offset] True by (simp add: max_def)
    have d: "i * bs - offset = 0" using o by simp
    have "sub_buffer bs buf offset i = take (bs - offset mod bs) buf"
      unfolding sub_buffer_def w d by simp
    then have "length (sub_buffer bs buf offset i) = min (length buf) (bs - offset mod bs)"
      by simp
    moreover have "in_block_offset bs offset i = offset mod bs"
      using True by (simp add: in_block_offset_def)
    ultimately show ?thesis using o m by (auto simp: min_def)  
  next
    case False
    with i have gt: "offset div bs < i" by simp
    have lt: "offset < i * bs" by (rule later_block_bounds [OF bs gt])
    then have w: "(i + 1) * bs - max (i * bs) offset = bs" by (simp add: max_def)
    have "sub_buffer bs buf offset i = take bs (drop (i * bs - offset) buf)"
      unfolding sub_buffer_def w by simp
    then have "length (sub_buffer bs buf offset i) = min (length buf - (i * bs - offset)) bs"
      by simp
    moreover have "in_block_offset bs offset i = 0"
      using False by (simp add: in_block_offset_def)
    ultimately show ?thesis using lt by (auto simp: min_def)
  qed
  assume k: "k < bs" "offset \<le> i * bs + k" "i * bs + k < offset + length buf"
  show "sub_buffer bs buf offset i ! (k - in_block_offset bs offset i) = buf ! (i * bs + k - offset)"
  proof (cases "i = offset div bs")
    case True
    have o: "offset = i * bs + offset mod bs" unfolding True by simp
    have w: "(i + 1) * bs - max (i * bs) offset = bs - offset mod bs"
      using first_block_bounds [OF bs, of offset] True by (simp add: max_def)
    have d: "i * bs - offset = 0" using o by simp
    have io: "in_block_offset bs offset i = offset mod bs"
      using True by (simp add: in_block_offset_def)
    have e: "i * bs + k - offset = k - offset mod bs" using o k(2) by linarith
    have sb: "sub_buffer bs buf offset i = take (bs - offset mod bs) buf"
      unfolding sub_buffer_def w d by simp
    have "k - offset mod bs < bs - offset mod bs" using k o by linarith
    then show ?thesis by (simp add: sb io e)
  next
    case False
    with i have gt: "offset div bs < i" by simp
    have lt: "offset < i * bs" by (rule later_block_bounds [OF bs gt])
    then have w: "(i + 1) * bs - max (i * bs) offset = bs" by (simp add: max_def)
    have io: "in_block_offset bs offset i = 0"
      using False by (simp add: in_block_offset_def)
    have e: "i * bs - offset + k = i * bs + k - offset" using lt by simp
    have sb: "sub_buffer bs buf offset i = take bs (drop (i * bs - offset) buf)"
      unfolding sub_buffer_def w by simp
    have "i * bs - offset + k < length buf" using k lt by linarith
    then show ?thesis using k(1) by (simp add: sb io e)
  qed
qed

lemma Block_new_data:
  assumes "bs mod (VHD_SECTOR_SIZE * 8) = 0"
  shows "dataBuffer (Block_new bs) =
           replicate (Block_bufferSize bs - bs div VHD_SECTOR_SIZE div 8) 0"
    and "bs \<le> length (dataBuffer (Block_new bs))"
proof -
  show d: "dataBuffer (Block_new bs) =
           replicate (Block_bufferSize bs - bs div VHD_SECTOR_SIZE div 8) 0"
    by (simp add: Block_new_def dataBuffer_def Let_def)
  from assms have "4096 dvd bs" by (simp add: VHD_SECTOR_SIZE_def mod_eq_0_iff_dvd)
  then obtain m where m: "bs = 4096 * m" by (rule dvdE)
  have "4096 * m + m \<le> (4096 * m * 4096 + 4096 * m + 2097151) div 2097152 * 512"
    by arith
  then have "bs + bs div VHD_SECTOR_SIZE div 8 \<le> Block_bufferSize bs"
    by (simp add: m Block_bufferSize_def ceil_div_def VHD_SECTOR_SIZE_def div_mult2_eq [symmetric])
  then show "bs \<le> length (dataBuffer (Block_new bs))"
    unfolding d by simp
qed

text \<open>
  Claim C2. For a positive block size that is a multiple of \<open>VHD_SECTOR_SIZE * 8\<close>, and
  for every buffer and offset, \<open>writeBuffer\<close> does not throw and changes the extent only
  at the touched block indices, those from \<open>offset div blockSize\<close> up to
  \<open>ceil_div (offset + length) blockSize\<close>. At each of them the block is afterwards the
  former block, or a newly allocated one when there was none, with the block's sub-buffer
  written at \<open>offset mod blockSize\<close> for the first touched index and at 0 for the others.
  Byte by byte: the data region of a touched block \<open>i\<close> keeps its length, its byte
  \<open>k\<close> is byte \<open>i * blockSize + k - offset\<close> of the buffer when \<open>k\<close> is below the block
  size and the disk position \<open>i * blockSize + k\<close> lies in the range written, and it is
  the byte that was there otherwise. A newly allocated block has a bitmap of \<open>0xff\<close>
  bytes only and a data region of at least \<open>blockSize\<close> zero bytes. No sub-buffer
  exceeds the block size together with its offset, and \<open>_writeBlock\<close> throws exactly
  when it is handed a buffer that does.
\<close>

theorem writeBuffer_touches_blocks:
  assumes "0 < SparseExtent.blockSize ext"
    and "SparseExtent.blockSize ext mod (VHD_SECTOR_SIZE * 8) = 0"
  shows "writeBuffer ext buf offset =
           (None, ext\<lparr>table := (table ext)\<lparr>entries :=
              (\<lambda>i. if touched (SparseExtent.blockSize ext) buf offset i
                   then Some (block_written ext buf offset i)
                   else entries (table ext) i)\<rparr>\<rparr>) \<and>
         (\<forall>i. touched (SparseExtent.blockSize ext) buf offset i \<longrightarrow>
              length (sub_buffer (SparseExtent.blockSize ext) buf offset i) +
              in_block_offset (SparseExtent.blockSize ext) offset i
                \<le> SparseExtent.blockSize ext) \<and>
         (\<forall>i. touched (SparseExtent.blockSize ext) buf offset i \<and>
              entries (table ext) i = None \<longrightarrow>
              bitmapBuffer (block_written ext buf offset i) =
                replicate (SparseExtent.blockSize ext div VHD_SECTOR_SIZE div 8) 255) \<and>
         (\<forall>b i off. fst (writeBlock ext b i off) =
              (if SparseExtent.blockSize ext < length b + off
               then Some (Error ''invalid block geometry'') else None)) \<and>
         (\<forall>i k. touched (SparseExtent.blockSize ext) buf offset i \<longrightarrow>
            (\<exists>old new.
               old = (case entries (table ext) i of
                        None \<Rightarrow> Block_new (SparseExtent.blockSize ext) | Some b \<Rightarrow> b) \<and>
               entries (table (snd (writeBuffer ext buf offset))) i = Some new \<and>
               length (dataBuffer new) = length (dataBuffer old) \<and>
               (k < length (dataBuffer old) \<longrightarrow>
                  dataBuffer new ! k =
                    (if k < SparseExtent.blockSize ext \<and>
                        offset \<le> i * SparseExtent.blockSize ext + k \<and>
                        i * SparseExtent.blockSize ext + k < offset + length buf
                     then buf ! (i * SparseExtent.blockSize ext + k - offset)
                     else dataBuffer old ! k)))) \<and>
         dataBuffer (Block_new (SparseExtent.blockSize ext)) =
           replicate (Block_bufferSize (SparseExtent.blockSize ext) -
                      SparseExtent.blockSize ext div VHD_SECTOR_SIZE div 8) 0 \<and>
         SparseExtent.blockSize ext \<le> length (dataBuffer (Block_new (SparseExtent.blockSize ext)))"
proof (intro conjI allI impI)
  show "writeBuffer ext buf offset =
           (None, ext\<lparr>table := (table ext)\<lparr>entries :=
              (\<lambda>i. if touched (SparseExtent.blockSize ext) buf offset i
                   then Some (block_written ext buf offset i)
                   else entries (table ext) i)\<rparr>\<rparr>)"
    by (rule writeBuffer_result [OF assms(1)])
next
  fix i assume "touched (SparseExtent.blockSize ext) buf offset i"
  then have "offset div SparseExtent.blockSize ext \<le> i" by (simp add: touched_def)
  then show "length (sub_buffer (SparseExtent.blockSize ext) buf offset i) +
              in_block_offset (SparseExtent.blockSize ext) offset i
                \<le> SparseExtent.blockSize ext"
    by (rule sub_buffer_fits [OF assms(1)])
next
  fix i assume "touched (SparseExtent.blockSize ext) buf offset i \<and> entries (table ext) i = None"
  then show "bitmapBuffer (block_written ext buf offset i) =
                replicate (SparseExtent.blockSize ext div VHD_SECTOR_SIZE div 8) 255"
    by (simp add: block_written_def bitmapBuffer_writeData bitmapBuffer_Block_new)
next
  fix b i off
  show "fst (writeBlock ext b i off) =
              (if SparseExtent.blockSize ext < length b + off
               then Some (Error ''invalid block geometry'') else None)"
    by (simp add: writeBlock_def Let_def)
next
  fix i k
  let ?bs = "SparseExtent.blockSize ext"
  let ?old = "case entries (table ext) i of None \<Rightarrow> Block_new ?bs | Some b \<Rightarrow> b"
  let ?sb = "sub_buffer ?bs buf offset i"
  let ?io = "in_block_offset ?bs offset i"
  assume t: "touched ?bs buf offset i"
  then have i: "offset div ?bs \<le> i" by (simp add: touched_def)
  have e: "entries (table (snd (writeBuffer ext buf offset))) i = Some (writeData ?old ?sb ?io)"
    using t by (simp add: writeBuffer_result [OF assms(1)] block_written_def)
  have l: "length (dataBuffer (writeData ?old ?sb ?io)) = length (dataBuffer ?old)"
    by (rule dataBuffer_writeData(1))
  have d: "dataBuffer (writeData ?old ?sb ?io) ! k =
             (if k < ?bs \<and> offset \<le> i * ?bs + k \<and> i * ?bs + k < offset + length buf
              then buf ! (i * ?bs + k - offset) else dataBuffer ?old ! k)"
    if k: "k < length (dataBuffer ?old)"
  proof (cases "k < ?bs \<and> offset \<le> i * ?bs + k \<and> i * ?bs + k < offset + length buf")
    case True
    then have "?io \<le> k \<and> k < ?io + length ?sb"
      by (simp add: sub_buffer_nth(1) [OF assms(1) i])
    then have "dataBuffer (writeData ?old ?sb ?io) ! k = ?sb ! (k - ?io)"
      unfolding dataBuffer_writeData(2) [OF k] by simp
    also have "\<dots> = buf ! (i * ?bs + k - offset)"
      using True by (intro sub_buffer_nth(2) [OF assms(1) i]) simp_all
    finally show ?thesis unfolding if_P [OF True] .
  next
    case False
    then have "\<not> (?io \<le> k \<and> k < ?io + length ?sb)"
      by (simp add: sub_buffer_nth(1) [OF assms(1) i])
    then have "dataBuffer (writeData ?old ?sb ?io) ! k = dataBuffer ?old ! k"
      unfolding dataBuffer_writeData(2) [OF k] by auto
    then show ?thesis unfolding if_not_P [OF False] .
  qed
  show "\<exists>old new.
               old = (case entries (table ext) i of
                        None \<Rightarrow> Block_new (SparseExtent.blockSize ext) | Some b \<Rightarrow> b) \<and>
               entries (table (snd (writeBuffer ext buf offset))) i = Some new \<and>
               length (dataBuffer new) = length (dataBuffer old) \<and>
               (k < length (dataBuffer old) \<longrightarrow>
                  dataBuffer new ! k =
                    (if k < SparseExtent.blockSize ext \<and>
                        offset \<le> i * SparseExtent.blockSize ext + k \<and>
                        i * SparseExtent.blockSize ext + k < offset + length buf
                     then buf ! (i * SparseExtent.blockSize ext + k - offset)
                     else dataBuffer old ! k))"
    using e l d by blast
next
  show "dataBuffer (Block_new (SparseExtent.blockSize ext)) =
           replicate (Block_bufferSize (SparseExtent.blockSize ext) -
                      SparseExtent.blockSize ext div VHD_SECTOR_SIZE div 8) 0"
    by (rule Block_new_data(1) [OF assms(2)])
next
  show "SparseExtent.blockSize ext \<le> length (dataBuffer (Block_new (SparseExtent.blockSize ext)))"
    by (rule Block_new_data(2) [OF assms(2)])
qed

theorem writeBuffer_touches_blocks_witness:
  "SparseExtent_new 8192 4096 1536 = Inr demo_extent \<and>
   fst (writeBuffer demo_extent [1, 2, 3, 4, 5] 4094) = None \<and>
   touched 4096 [1, 2, 3, 4, 5] 4094 0 \<and> touched 4096 [1, 2, 3, 4, 5] 4094 1 \<and>
   \<not> touched 4096 [1, 2, 3, 4, 5] 4094 2 \<and>
   sub_buffer 4096 [1, 2, 3, 4, 5] 4094 0 = [1, 2] \<and>
   sub_buffer 4096 [1, 2, 3, 4, 5] 4094 1 = [3, 4, 5] \<and>
   in_block_offset 4096 4094 0 = 4094 \<and> in_block_offset 4096 4094 1 = 0 \<and>
   bitmapBuffer (block_written demo_extent [1, 2, 3, 4, 5] 4094 1) = [255] \<and>
   fst (writeBlock demo_extent [1, 2, 3] 0 4094) = Some (Error ''invalid block geometry'') \<and>
   (\<exists>b0 b1. entries (table (snd (writeBuffer demo_extent [1, 2, 3, 4, 5] 4094))) 0 = Some b0 \<and>
            entries (table (snd (writeBuffer demo_extent [1, 2, 3, 4, 5] 4094))) 1 = Some b1 \<and>
            length (dataBuffer b0) = 4607 \<and> length (dataBuffer b1) = 4607 \<and>
            dataBuffer b0 ! 4093 = 0 \<and> dataBuffer b0 ! 4094 = 1 \<and> dataBuffer b0 ! 4095 = 2 \<and>
            dataBuffer b0 ! 4096 = 0 \<and>
            dataBuffer b1 ! 0 = 3 \<and> dataBuffer b1 ! 1 = 4 \<and> dataBuffer b1 ! 2 = 5 \<and>
            dataBuffer b1 ! 3 = 0)"
proof -
  have bs: "0 < SparseExtent.blockSize demo_extent"
    and m: "SparseExtent.blockSize demo_extent mod (VHD_SECTOR_SIZE * 8) = 0"
    by (simp_all add: demo_extent_def VHD_SECTOR_SIZE_def)
  have new: "SparseExtent_new 8192 4096 1536 = Inr demo_extent"
    by (simp add: SparseExtent_new_def createEmptyTable_def ceil_div_def VHD_SECTOR_SIZE_def
          demo_extent_def Let_def)
  have t: "touched 4096 [1, 2, 3, 4, 5] 4094 0" "touched 4096 [1, 2, 3, 4, 5] 4094 1"
    "\<not> touched 4096 [1, 2, 3, 4, 5] 4094 2"
    by (simp_all add: touched_def ceil_div_def)
  have s: "sub_buffer 4096 [1, 2, 3, 4, 5] 4094 0 = [1, 2]"
    "sub_buffer 4096 [1, 2, 3, 4, 5] 4094 1 = [3, 4, 5]"
    "in_block_offset 4096 4094 0 = 4094" "in_block_offset 4096 4094 1 = 0"
    by (simp_all add: sub_buffer_def in_block_offset_def)
  have e: "entries (table demo_extent) = (\<lambda>i. None)" "SparseExtent.blockSize demo_extent = 4096"
    by (simp_all add: demo_extent_def)
  have sz: "Block_bufferSize 4096 - 4096 div VHD_SECTOR_SIZE div 8 = 4607"
    by (simp add: Block_bufferSize_def ceil_div_def VHD_SECTOR_SIZE_def)
  note T = writeBuffer_touches_blocks [OF bs m, of "[1, 2, 3, 4, 5]" 4094, unfolded e option.case]
  note D = T [THEN conjunct2, THEN conjunct2, THEN conjunct2, THEN conjunct2, THEN conjunct1,
              rule_format]
  note Z = T [THEN conjunct2, THEN conjunct2, THEN conjunct2, THEN conjunct2, THEN conjunct2,
              THEN conjunct1, unfolded sz]
  from D [OF t(1), of 0] obtain b0 where
    b0: "entries (table (snd (writeBuffer demo_extent [1, 2, 3, 4, 5] 4094))) 0 = Some b0"
    and l0: "length (dataBuffer b0) = 4607"
    by (auto simp: Z)
  from D [OF t(2), of 0] obtain b1 where
    b1: "entries (table (snd (writeBuffer demo_extent [1, 2, 3, 4, 5] 4094))) 1 = Some b1"
    and l1: "length (dataBuffer b1) = 4607"
    by (auto simp: Z)
  have d0: "dataBuffer b0 ! 4093 = 0" "dataBuffer b0 ! 4094 = 1" "dataBuffer b0 ! 4095 = 2"
    "dataBuffer b0 ! 4096 = 0"
    using D [OF t(1), of 4093] D [OF t(1), of 4094] D [OF t(1), of 4095] D [OF t(1), of 4096] b0
    by (simp_all add: Z)
  have d1: "dataBuffer b1 ! 0 = 3" "dataBuffer b1 ! 1 = 4" "dataBuffer b1 ! 2 = 5"
    "dataBuffer b1 ! 3 = 0"
    using D [OF t(2), of 0] D [OF t(2), of 1] D [OF t(2), of 2] D [OF t(2), of 3] b1
    by (simp_all add: Z)
  have ex: "\<exists>b0 b1.
            entries (table (snd (writeBuffer demo_extent [1, 2, 3, 4, 5] 4094))) 0 = Some b0 \<and>
            entries (table (snd (writeBuffer demo_extent [1, 2, 3, 4, 5] 4094))) 1 = Some b1 \<and>
            length (dataBuffer b0) = 4607 \<and> length (dataBuffer b1) = 4607 \<and>
            dataBuffer b0 ! 4093 = 0 \<and> dataBuffer b0 ! 4094 = 1 \<and> dataBuffer b0 ! 4095 = 2 \<and>
            dataBuffer b0 ! 4096 = 0 \<and>
            dataBuffer b1 ! 0 = 3 \<and> dataBuffer b1 ! 1 = 4 \<and> dataBuffer b1 ! 2 = 5 \<and>
            dataBuffer b1 ! 3 = 0"
    using b0 b1 l0 l1 d0 d1 by blast
  from T [THEN conjunct1] T [THEN conjunct2, THEN conjunct2, THEN conjunct1]
    T [THEN conjunct2, THEN conjunct2, THEN conjunct2, THEN conjunct1] new t s ex
  show ?thesis
    by (simp add: VHD_SECTOR_SIZE_def)
qed

lemma length_uint32BE [simp]: "length (uint32BE v) = 4"
  by (simp add: uint32BE_def)

lemma writeUInt32BE_entry:
  assumes "writeUInt32BE B v (j * 4) = Inr B'"
  shows "length B' = length B"
    and "bat_entry B' k = (if k = j then uint32BE v else bat_entry B k)"
proof -
  from assms have le: "j * 4 + 4 \<le> length B"
    and B': "B' = take (j * 4) B @ uint32BE v @ drop (j * 4 + 4) B"
    by (auto simp: writeUInt32BE_def split: if_splits)
  show "length B' = length B" using le by (simp add: B')
  consider "k = j" | "k < j" | "j < k" by linarith
  then show "bat_entry B' k = (if k = j then uint32BE v else bat_entry B k)"
  proof cases
    case 1
    then show ?thesis using le by (simp add: B' bat_entry_def)
  next
    case 2
    then have "4 \<le> j * 4 - k * 4" "k * 4 \<le> j * 4" by simp_all
    then show ?thesis using 2 le by (simp add: B' bat_entry_def drop_take min_def)
  next
    case 3
    then have "j * 4 + 4 \<le> k * 4" by simp
    then show ?thesis using 3 le by (simp add: B' bat_entry_def)
  qed
qed

lemma allocated_step:
  "i < j \<Longrightarrow> allocated ext i j =
     (case entries (table ext) i of None \<Rightarrow> [] | Some b \<Rightarrow> [b]) @ allocated ext (Suc i) j"
  by (simp add: allocated_def upt_conv_Cons List.map_filter_simps split: option.splits)

lemma allocated_snoc:
  "i \<le> j \<Longrightarrow> allocated ext i (Suc j) =
     allocated ext i j @ (case entries (table ext) j of None \<Rightarrow> [] | Some b \<Rightarrow> [b])"
  by (simp add: allocated_def List.map_filter_def split: option.splits)

lemma blocks_loop_eq:
  "blocks_loop ext i f = f @ map Block.buffer (allocated ext i (entryCount (table ext)))"
proof (induction "entryCount (table ext) - i" arbitrary: i f)
  case 0
  then show ?case by (simp add: blocks_loop.simps allocated_def List.map_filter_simps)
next
  case (Suc k)
  then have lt: "i < entryCount (table ext)" and k: "k = entryCount (table ext) - Suc i" by auto
  show ?case
    by (subst blocks_loop.simps)
       (simp add: lt Suc.hyps(1) [OF k] allocated_step [OF lt] Block_writeOnFile_def
          split: option.splits)
qed

lemma stamp_loop_done:
  "\<not> i < entryCount (table ext) \<Longrightarrow> stamp_loop ext i c = (None, ext)"
  by (simp add: stamp_loop.simps)

lemma stamp_loop_skip:
  "i < entryCount (table ext) \<Longrightarrow> entries (table ext) i = None \<Longrightarrow>
   stamp_loop ext i c = stamp_loop ext (Suc i) c"
  by (simp add: stamp_loop.simps [of ext i])

lemma stamp_loop_fail:
  "i < entryCount (table ext) \<Longrightarrow> entries (table ext) i = Some b \<Longrightarrow>
   writeUInt32BE (Table.buffer (table ext)) c (i * 4) = Inl e \<Longrightarrow>
   stamp_loop ext i c = (Some e, ext)"
  by (simp add: stamp_loop.simps [of ext i])

lemma stamp_loop_step:
  "i < entryCount (table ext) \<Longrightarrow> entries (table ext) i = Some b \<Longrightarrow>
   writeUInt32BE (Table.buffer (table ext)) c (i * 4) = Inr B1 \<Longrightarrow>
   stamp_loop ext i c =
     stamp_loop (ext\<lparr>table := (table ext)\<lparr>Table.buffer := B1\<rparr>\<rparr>) (Suc i) (c + sectors b)"
  by (simp add: stamp_loop.simps [of ext i] sectors_def)

lemma allocated_buffer_upd [simp]:
  "allocated (ext\<lparr>table := (table ext)\<lparr>Table.buffer := B\<rparr>\<rparr>) i j = allocated ext i j"
  by (simp add: allocated_def)

lemma stamp_loop_result:
  "stamp_loop ext i c = (err, ext') \<Longrightarrow>
     \<exists>B'. ext' = ext\<lparr>table := (table ext)\<lparr>Table.buffer := B'\<rparr>\<rparr> \<and> stamped ext i c err B'"
proof (induction "entryCount (table ext) - i" arbitrary: ext i c)
  case 0
  then have "\<not> i < entryCount (table ext)" by simp
  with 0 have "err = None" "ext' = ext" by (simp_all add: stamp_loop_done)
  then have "ext' = ext\<lparr>table := (table ext)\<lparr>Table.buffer := Table.buffer (table ext)\<rparr>\<rparr>"
    "stamped ext i c err (Table.buffer (table ext))"
    using \<open>\<not> i < entryCount (table ext)\<close> by (auto simp: stamped_def)
  then show ?case by blast
next
  case (Suc k)
  then have lt: "i < entryCount (table ext)" and k: "k = entryCount (table ext) - Suc i" by auto
  show ?case
  proof (cases "entries (table ext) i")
    case None
    from Suc.prems have "stamp_loop ext (Suc i) c = (err, ext')"
      by (simp add: stamp_loop_skip [OF lt None])
    from Suc.hyps(1) [OF k this] obtain B' where
      e: "ext' = ext\<lparr>table := (table ext)\<lparr>Table.buffer := B'\<rparr>\<rparr>" and s: "stamped ext (Suc i) c err B'"
      by blast
    have al: "allocated ext i j = allocated ext (Suc i) j" if "i < j" for j
      using that None by (simp add: allocated_step)
    have "stamped ext i c err B'"
      unfolding stamped_def
    proof (intro conjI allI impI)
      show "length B' = length (Table.buffer (table ext))" using s by (simp add: stamped_def)
    next
      fix j assume "entries (table ext) j = None \<or> j < i \<or> entryCount (table ext) \<le> j"
      then show "bat_entry B' j = bat_entry (Table.buffer (table ext)) j"
        using s by (auto simp: stamped_def)
    next
      fix j b assume en: "err = None"
        and j: "i \<le> j \<and> j < entryCount (table ext) \<and> entries (table ext) j = Some b"
      then have "Suc i \<le> j" using None by (cases "j = i") auto
      then show "bat_entry B' j = uint32BE (c + sum_list (map sectors (allocated ext i j)))"
        using s en j al [of j] by (auto simp: stamped_def)
    qed
    with e show ?thesis by blast
  next
    case (Some b)
    show ?thesis
    proof (cases "writeUInt32BE (Table.buffer (table ext)) c (i * 4)")
      case (Inl e)
      from Suc.prems have "err = Some e" "ext' = ext"
        by (simp_all add: stamp_loop_fail [OF lt Some Inl])
      then have "ext' = ext\<lparr>table := (table ext)\<lparr>Table.buffer := Table.buffer (table ext)\<rparr>\<rparr>"
        "stamped ext i c err (Table.buffer (table ext))"
        by (simp_all add: stamped_def)
      then show ?thesis by blast
    next
      case (Inr B1)
      let ?ext1 = "ext\<lparr>table := (table ext)\<lparr>Table.buffer := B1\<rparr>\<rparr>"
      have k1: "k = entryCount (table ?ext1) - Suc i" using k by simp
      from Suc.prems have "stamp_loop ?ext1 (Suc i) (c + sectors b) = (err, ext')"
        by (simp add: stamp_loop_step [OF lt Some Inr])
      from Suc.hyps(1) [OF k1 this] obtain B' where
        e: "ext' = ?ext1\<lparr>table := (table ?ext1)\<lparr>Table.buffer := B'\<rparr>\<rparr>"
        and s: "stamped ?ext1 (Suc i) (c + sectors b) err B'"
        by blast
      note w = writeUInt32BE_entry [OF Inr]
      have al: "allocated ext i j = b # allocated ext (Suc i) j" if "i < j" for j
        using that Some by (simp add: allocated_step)
      have "stamped ext i c err B'"
        unfolding stamped_def
      proof (intro conjI allI impI)
        show "length B' = length (Table.buffer (table ext))"
          using s w(1) by (simp add: stamped_def)
      next
        fix j assume a: "entries (table ext) j = None \<or> j < i \<or> entryCount (table ext) \<le> j"
        then have "j \<noteq> i" using Some lt by auto
        then have "bat_entry B1 j = bat_entry (Table.buffer (table ext)) j"
          by (simp add: w(2))
        moreover have "bat_entry B' j = bat_entry B1 j"
          using s a by (auto simp: stamped_def)
        ultimately show "bat_entry B' j = bat_entry (Table.buffer (table ext)) j" by simp
      next
        fix j b' assume en: "err = None"
          and j: "i \<le> j \<and> j < entryCount (table ext) \<and> entries (table ext) j = Some b'"
        show "bat_entry B' j = uint32BE (c + sum_list (map sectors (allocated ext i j)))"
        proof (cases "j = i")
          case True
          have "bat_entry B' i = bat_entry B1 i" using s by (simp add: stamped_def)
          then show ?thesis using True by (simp add: w(2) allocated_def List.map_filter_simps)
        next
          case False
          with j have "i < j" by simp
          then show ?thesis
            using s en j al [of j] by (auto simp: stamped_def add.assoc)
        qed
      qed
      with e show ?thesis by simp blast
    qed
  qed
qed

lemma stamp_loop_cong:
  assumes "entryCount (table e1) = entryCount (table e2)"
    and "Table.buffer (table e1) = Table.buffer (table e2)"
    and "\<forall>j < entryCount (table e1). entries (table e1) j = entries (table e2) j"
  shows "fst (stamp_loop e1 i c) = fst (stamp_loop e2 i c) \<and>
         Table.buffer (table (snd (stamp_loop e1 i c))) =
         Table.buffer (table (snd (stamp_loop e2 i c)))"
  using assms
proof (induction "entryCount (table e1) - i" arbitrary: e1 e2 i c)
  case 0
  then have "\<not> i < entryCount (table e1)" "\<not> i < entryCount (table e2)" by simp_all
  then show ?case using "0.prems" by (simp add: stamp_loop_done)
next
  case (Suc k)
  then have lt1: "i < entryCount (table e1)" and lt2: "i < entryCount (table e2)"
    and k: "k = entryCount (table e1) - Suc i" by auto
  have same: "entries (table e1) i = entries (table e2) i" using Suc.prems(3) lt1 by simp
  show ?case
  proof (cases "entries (table e1) i")
    case None
    then have n2: "entries (table e2) i = None" using same by simp
    show ?thesis
      unfolding stamp_loop_skip [OF lt1 None] stamp_loop_skip [OF lt2 n2]
      by (rule Suc.hyps(1) [OF k Suc.prems])
  next
    case (Some b)
    then have s2: "entries (table e2) i = Some b" using same by simp
    show ?thesis
    proof (cases "writeUInt32BE (Table.buffer (table e1)) c (i * 4)")
      case (Inl e)
      then have i2: "writeUInt32BE (Table.buffer (table e2)) c (i * 4) = Inl e"
        using Suc.prems(2) by simp
      show ?thesis
        unfolding stamp_loop_fail [OF lt1 Some Inl] stamp_loop_fail [OF lt2 s2 i2]
        using Suc.prems(2) by simp
    next
      case (Inr B1)
      then have i2: "writeUInt32BE (Table.buffer (table e2)) c (i * 4) = Inr B1"
        using Suc.prems(2) by simp
      let ?a = "e1\<lparr>table := (table e1)\<lparr>Table.buffer := B1\<rparr>\<rparr>"
      let ?b = "e2\<lparr>table := (table e2)\<lparr>Table.buffer := B1\<rparr>\<rparr>"
      have ka: "k = entryCount (table ?a) - Suc i" using k by simp
      have p1: "entryCount (table ?a) = entryCount (table ?b)" using Suc.prems(1) by simp
      have p2: "Table.buffer (table ?a) = Table.buffer (table ?b)" by simp
      have p3: "\<forall>j < entryCount (table ?a). entries (table ?a) j = entries (table ?b) j"
        using Suc.prems(3) by simp
      show ?thesis
        unfolding stamp_loop_step [OF lt1 Some Inr] stamp_loop_step [OF lt2 s2 i2]
        by (rule Suc.hyps(1) [OF ka p1 p2 p3])
    qed
  qed
qed

lemma stamp_loop_frame:
  "entryCount (table (snd (stamp_loop ext i c))) = entryCount (table ext)"
  "entries (table (snd (stamp_loop ext i c))) = entries (table ext)"
  "SparseExtent.blockSize (snd (stamp_loop ext i c)) = SparseExtent.blockSize ext"
  "startOffset (snd (stamp_loop ext i c)) = startOffset ext"
proof -
  obtain err ext' where r: "stamp_loop ext i c = (err, ext')" by (cases "stamp_loop ext i c")
  from stamp_loop_result [OF r] obtain B' where
    "ext' = ext\<lparr>table := (table ext)\<lparr>Table.buffer := B'\<rparr>\<rparr>" by blast
  then show "entryCount (table (snd (stamp_loop ext i c))) = entryCount (table ext)"
    "entries (table (snd (stamp_loop ext i c))) = entries (table ext)"
    "SparseExtent.blockSize (snd (stamp_loop ext i c)) = SparseExtent.blockSize ext"
    "startOffset (snd (stamp_loop ext i c)) = startOffset ext"
    by (simp_all add: r)
qed

lemma allocated_cong:
  "\<forall>k < j. entries (table e1) k = entries (table e2) k \<Longrightarrow> allocated e1 i j = allocated e2 i j"
proof (induction j)
  case 0
  show ?case by (simp add: allocated_def)
next
  case (Suc j)
  show ?case
  proof (cases "i \<le> j")
    case True
    have "allocated e1 i j = allocated e2 i j" using Suc by simp
    moreover have "entries (table e1) j = entries (table e2) j" using Suc.prems by simp
    ultimately show ?thesis by (simp add: allocated_snoc [OF True])
  next
    case False
    then show ?thesis by (simp add: allocated_def)
  qed
qed

lemma writeOnFile_eq:
  "writeOnFile ext f =
     (fst (stamp_loop ext 0 (startOffset ext)), snd (stamp_loop ext 0 (startOffset ext)),
      case fst (stamp_loop ext 0 (startOffset ext)) of
        Some e \<Rightarrow> f
      | None \<Rightarrow> f @ [Table.buffer (table (snd (stamp_loop ext 0 (startOffset ext))))] @
                 map Block.buffer (allocated ext 0 (entryCount (table ext))))"
proof -
  obtain err ext' where r: "stamp_loop ext 0 (startOffset ext) = (err, ext')"
    by (cases "stamp_loop ext 0 (startOffset ext)")
  have n: "entryCount (table ext') = entryCount (table ext)"
    and e: "entries (table ext') = entries (table ext)"
    using stamp_loop_frame(1,2) [of ext 0 "startOffset ext"] by (simp_all add: r)
  have a: "allocated ext' 0 (entryCount (table ext')) = allocated ext 0 (entryCount (table ext))"
    unfolding n by (rule allocated_cong) (simp add: e)
  show ?thesis
    by (cases err) (simp_all add: writeOnFile_def r blocks_loop_eq a)
qed

lemma writeFile_eq:
  "writeFile lib v =
     (let ext = sparseFile v;
          r = stamp_loop ext 0 (startOffset ext);
          fileFooter = createFooter lib (actualSize (geomtry v)) (VHDFile.timestamp v) (geomtry v)
                         HARD_DISK_TYPE_DYNAMIC (Num (struct_size lib fuFooter));
          diskHeader = createDynamicDiskHeader lib (entryCount (table ext)) (VHDFile.blockSize v)
      in (fst r, v\<lparr>sparseFile := snd r\<rparr>,
          case fst r of
            Some e \<Rightarrow> [fileFooter, diskHeader]
          | None \<Rightarrow> [fileFooter, diskHeader, Table.buffer (table (snd r))] @
                     map Block.buffer (allocated ext 0 (entryCount (table ext))) @ [fileFooter]))"
  by (simp add: writeFile_def writeOnFile_eq Let_def split: option.splits)

lemma writeFile_cong:
  assumes "geomtry v1 = geomtry v2" "VHDFile.timestamp v1 = VHDFile.timestamp v2"
    and "VHDFile.blockSize v1 = VHDFile.blockSize v2"
    and "startOffset (sparseFile v1) = startOffset (sparseFile v2)"
    and "entryCount (table (sparseFile v1)) = entryCount (table (sparseFile v2))"
    and "Table.buffer (table (sparseFile v1)) = Table.buffer (table (sparseFile v2))"
    and "\<forall>j < entryCount (table (sparseFile v1)).
           entries (table (sparseFile v1)) j = entries (table (sparseFile v2)) j"
  shows "fst (writeFile lib v1) = fst (writeFile lib v2)"
    and "snd (snd (writeFile lib v1)) = snd (snd (writeFile lib v2))"
proof -
  note c = stamp_loop_cong [OF assms(5,6,7), of 0 "startOffset (sparseFile v2)"]
  have a: "allocated (sparseFile v1) 0 (entryCount (table (sparseFile v2)))
           = allocated (sparseFile v2) 0 (entryCount (table (sparseFile v2)))"
    by (rule allocated_cong) (use assms(5,7) in simp)
  show "fst (writeFile lib v1) = fst (writeFile lib v2)"
    using c by (simp add: writeFile_eq Let_def assms(4))
  show "snd (snd (writeFile lib v1)) = snd (snd (writeFile lib v2))"
    using c a by (simp add: writeFile_eq Let_def assms(1-5) cong: option.case_cong)
qed

lemma past_capacity_index:
  fixes n bs offset :: nat
  assumes "n * bs \<le> offset" "0 < bs"
  shows "n \<le> offset div bs"
proof -
  have "n = (n * bs) div bs" using assms(2) by simp
  also have "\<dots> \<le> offset div bs" by (rule div_le_mono [OF assms(1)])
  finally show ?thesis .
qed

lemma touched_first:
  assumes "0 < bs" "buf \<noteq> []"
  shows "touched bs buf offset (offset div bs)"
proof -
  have "0 < length buf" using assms(2) by simp
  then have "offset + bs \<le> offset + length buf + bs - 1" by linarith
  then have "(offset + bs) div bs \<le> (offset + length buf + bs - 1) div bs"
    by (rule div_le_mono)
  moreover have "bs \<noteq> 0" using assms(1) by simp
  then have "(offset + bs) div bs = offset div bs + 1" by (rule div_add_self2)
  ultimately show ?thesis by (simp add: touched_def ceil_div_def)
qed

text \<open>
  Claim C10. A \<open>writeBuffer\<close> whose offset is at or beyond \<open>entryCount * blockSize\<close>
  does not throw and changes the block table only at indices from \<open>entryCount\<close> on,
  where a non-empty buffer allocates at least the block of index \<open>offset div blockSize\<close>.
  \<open>writeFile\<close> afterwards writes the same buffers, the table among them, and ends the
  same way as it would have without the call.
\<close>

theorem writeFile_ignores_blocks_past_capacity:
  assumes "entryCount (table (sparseFile v)) * SparseExtent.blockSize (sparseFile v) \<le> offset"
  shows "fst (VHDFile_writeBuffer v buf offset) = None \<and>
         fst (writeFile lib (snd (VHDFile_writeBuffer v buf offset))) = fst (writeFile lib v) \<and>
         snd (snd (writeFile lib (snd (VHDFile_writeBuffer v buf offset)))) =
           snd (snd (writeFile lib v)) \<and>
         (\<forall>i. entries (table (sparseFile (snd (VHDFile_writeBuffer v buf offset)))) i \<noteq>
                entries (table (sparseFile v)) i
              \<longrightarrow> entryCount (table (sparseFile v)) \<le> i) \<and>
         (buf \<noteq> [] \<and> 0 < SparseExtent.blockSize (sparseFile v) \<longrightarrow>
            entryCount (table (sparseFile v)) \<le> offset div SparseExtent.blockSize (sparseFile v) \<and>
            entries (table (sparseFile (snd (VHDFile_writeBuffer v buf offset))))
              (offset div SparseExtent.blockSize (sparseFile v)) \<noteq> None)"
proof (cases "SparseExtent.blockSize (sparseFile v) = 0")
  case True
  then have "VHDFile_writeBuffer v buf offset = (None, v)"
    by (simp add: VHDFile_writeBuffer_def writeBuffer_def)
  then show ?thesis using True by simp
next
  case False
  let ?ext = "sparseFile v"
  let ?bs = "SparseExtent.blockSize ?ext"
  let ?F = "\<lambda>i. if touched ?bs buf offset i then Some (block_written ?ext buf offset i)
                 else entries (table ?ext) i"
  let ?v' = "v\<lparr>sparseFile := ?ext\<lparr>table := (table ?ext)\<lparr>entries := ?F\<rparr>\<rparr>\<rparr>"
  from False have bs: "0 < ?bs" by simp
  have w: "VHDFile_writeBuffer v buf offset = (None, ?v')"
    by (simp add: VHDFile_writeBuffer_def writeBuffer_result [OF bs])
  have n: "entryCount (table ?ext) \<le> offset div ?bs"
    by (rule past_capacity_index [OF assms bs])
  have below: "\<not> touched ?bs buf offset j" if "j < entryCount (table ?ext)" for j
    using that n by (simp add: touched_def)
  have same: "\<forall>j < entryCount (table (sparseFile ?v')).
                entries (table (sparseFile ?v')) j = entries (table (sparseFile v)) j"
    using below by simp
  have c: "fst (writeFile lib ?v') = fst (writeFile lib v)"
    "snd (snd (writeFile lib ?v')) = snd (snd (writeFile lib v))"
    by (rule writeFile_cong [OF _ _ _ _ _ _ same]; simp)+
  have d: "\<forall>i. entries (table (sparseFile ?v')) i \<noteq> entries (table (sparseFile v)) i
              \<longrightarrow> entryCount (table (sparseFile v)) \<le> i"
    using below by (auto simp: not_less [symmetric])
  have e: "buf \<noteq> [] \<and> 0 < ?bs \<longrightarrow>
            entryCount (table ?ext) \<le> offset div ?bs \<and>
            entries (table (sparseFile ?v')) (offset div ?bs) \<noteq> None"
    using n touched_first [OF bs, of buf offset] by simp
  show ?thesis
    unfolding w using c d e by simp
qed

lemma Block_new_builder:
  "length (Block.buffer (Block_new 2097152)) = 4097 * VHD_SECTOR_SIZE"
  "bitmapSize (Block_new 2097152) = 512"
  by (simp_all add: Block_new_def Block_bufferSize_def ceil_div_def VHD_SECTOR_SIZE_def Let_def)

lemma length_copy [simp]: "length (copy src tgt n) = length tgt"
  by (simp add: copy_def Let_def)

lemma writeData_size:
  assumes "bitmapSize b \<le> length (Block.buffer b)"
  shows "length (Block.buffer (writeData b buf off)) = length (Block.buffer b)"
    and "bitmapSize (writeData b buf off) = bitmapSize b"
  using assms by (simp_all add: writeData_def bitmapBuffer_def dataBuffer_def)

lemma bat_entry_fresh:
  assumes "i < n"
  shows "bat_entry (replicate (ceil_div (n * 4) VHD_SECTOR_SIZE * VHD_SECTOR_SIZE) 255) i
           = [255, 255, 255, 255]"
proof -
  have "n * 4 \<le> (n * 4 + 511) div 512 * 512"
    by arith
  then have "i * 4 + 4 \<le> ceil_div (n * 4) VHD_SECTOR_SIZE * VHD_SECTOR_SIZE"
    using assms by (simp add: ceil_div_def VHD_SECTOR_SIZE_def)
  then have "take 4 (replicate (ceil_div (n * 4) VHD_SECTOR_SIZE * VHD_SECTOR_SIZE - i * 4)
                (255 :: byte)) = replicate 4 255"
    by (simp add: min_def)
  then show ?thesis
    by (simp add: bat_entry_def numeral_eq_Suc)
qed

lemma table_fits: "n * 4 \<le> ceil_div (n * 4) VHD_SECTOR_SIZE * VHD_SECTOR_SIZE"
proof -
  have "n * 4 \<le> (n * 4 + 511) div 512 * 512" by arith
  then show ?thesis by (simp add: ceil_div_def VHD_SECTOR_SIZE_def)
qed

lemma builder_inv_new:
  assumes "VHDFile_new lib virtualSize ts = Inr v"
  shows "builder_inv v"
proof -
  let ?n = "ceil_div (actualSize (computeGeometryForSize lib virtualSize)) 2097152"
  from assms have ext: "sparseFile v =
      \<lparr>table = \<lparr>entryCount = ?n,
                 buffer = replicate (ceil_div (?n * 4) VHD_SECTOR_SIZE * VHD_SECTOR_SIZE) 255,
                 entries = (\<lambda>i. None)\<rparr>,
       blockSize = 2097152,
       startOffset = (VHD_SECTOR_SIZE * 3 +
                      ceil_div (?n * 4) VHD_SECTOR_SIZE * VHD_SECTOR_SIZE) div VHD_SECTOR_SIZE\<rparr>"
    by (auto simp: VHDFile_new_def SparseExtent_new_def createEmptyTable_def Let_def
             split: sum.splits)
  show ?thesis
    using table_fits [of ?n] by (simp add: builder_inv_def ext bat_entry_fresh)
qed

lemma builder_inv_writeBuffer:
  assumes "builder_inv v"
  shows "builder_inv (snd (VHDFile_writeBuffer v buf offset))"
proof -
  let ?ext = "sparseFile v"
  let ?F = "\<lambda>i. if touched 2097152 buf offset i then Some (block_written ?ext buf offset i)
                 else entries (table ?ext) i"
  from assms have bs: "SparseExtent.blockSize ?ext = 2097152" by (simp add: builder_inv_def)
  then have pos: "0 < SparseExtent.blockSize ?ext" by simp
  have w: "snd (VHDFile_writeBuffer v buf offset) =
             v\<lparr>sparseFile := ?ext\<lparr>table := (table ?ext)\<lparr>entries := ?F\<rparr>\<rparr>\<rparr>"
    by (simp add: VHDFile_writeBuffer_def writeBuffer_result [OF pos] bs)
  have blk: "length (Block.buffer (block_written ?ext buf offset i)) = 4097 * VHD_SECTOR_SIZE \<and>
             bitmapSize (block_written ?ext buf offset i) = 512" for i
  proof (cases "entries (table ?ext) i")
    case None
    then show ?thesis
      by (simp add: block_written_def bs writeData_size [OF bitmapBuffer_Block_new(2)]
            Block_new_builder)
  next
    case (Some b)
    with assms have "length (Block.buffer b) = 4097 * VHD_SECTOR_SIZE" "bitmapSize b = 512"
      by (simp_all add: builder_inv_def)
    moreover from this have "bitmapSize b \<le> length (Block.buffer b)"
      by (simp add: VHD_SECTOR_SIZE_def)
    ultimately show ?thesis using Some
      by (simp add: block_written_def writeData_size)
  qed
  have 2: "bat_entry (Table.buffer (table ?ext)) i = [255, 255, 255, 255]"
    if "i < entryCount (table ?ext)" "?F i = None" for i
  proof -
    from that(2) have "entries (table ?ext) i = None" by (simp split: if_splits)
    with assms that(1) show ?thesis by (simp add: builder_inv_def)
  qed
  have 3: "length (Block.buffer b) = 4097 * VHD_SECTOR_SIZE \<and> bitmapSize b = 512"
    if "?F i = Some b" for i b
  proof -
    from that have "b = block_written ?ext buf offset i \<or> entries (table ?ext) i = Some b"
      by (auto split: if_splits)
    then show ?thesis using blk [of i] assms by (auto simp: builder_inv_def)
  qed
  have 4: "entryCount (table ?ext) * 4 \<le> length (Table.buffer (table ?ext))"
    using assms by (simp add: builder_inv_def)
  show ?thesis
    unfolding w builder_inv_def using bs 2 3 4 by simp
qed

lemma builder_inv_writeFile:
  assumes "builder_inv v"
  shows "builder_inv (fst (snd (writeFile lib v)))"
proof -
  let ?ext = "sparseFile v"
  obtain err ext' where r: "stamp_loop ?ext 0 (startOffset ?ext) = (err, ext')"
    by (cases "stamp_loop ?ext 0 (startOffset ?ext)")
  from stamp_loop_result [OF r] obtain B' where
    e: "ext' = ?ext\<lparr>table := (table ?ext)\<lparr>Table.buffer := B'\<rparr>\<rparr>"
    and s: "stamped ?ext 0 (startOffset ?ext) err B'" by blast
  have v': "fst (snd (writeFile lib v)) = v\<lparr>sparseFile := ext'\<rparr>"
    by (simp add: writeFile_eq Let_def r)
  from s have keep: "entries (table ?ext) j = None \<Longrightarrow>
                     bat_entry B' j = bat_entry (Table.buffer (table ?ext)) j" for j
    by (simp add: stamped_def)
  from s have len: "length B' = length (Table.buffer (table ?ext))"
    by (simp add: stamped_def)
  show ?thesis
    using assms keep len by (simp add: v' e builder_inv_def)
qed

lemma builder_inv_built:
  assumes "built lib virtualSize ts ops = Inr v"
  shows "builder_inv v"
proof -
  have step: "builder_inv u \<Longrightarrow> builder_inv (apply_op lib u x)" for u x
    by (cases x) (simp_all add: builder_inv_writeBuffer builder_inv_writeFile)
  have run: "builder_inv u \<Longrightarrow> builder_inv (foldl (apply_op lib) u xs)" for u xs
    by (induction xs arbitrary: u) (simp_all add: step)
  from assms obtain u where "VHDFile_new lib virtualSize ts = Inr u"
    and "v = foldl (apply_op lib) u ops"
    by (auto simp: built_def split: sum.splits)
  then show ?thesis using run [OF builder_inv_new] by simp
qed

lemma allocated_mem:
  "b \<in> set (allocated ext i j) \<Longrightarrow> \<exists>k. entries (table ext) k = Some b"
  by (auto simp: allocated_def List.map_filter_def)

lemma stamp_loop_status:
  assumes "entryCount (table ext) * 4 \<le> length (Table.buffer (table ext))"
  shows "fst (stamp_loop ext i c) =
           (if \<forall>j. i \<le> j \<and> j < entryCount (table ext) \<and> entries (table ext) j \<noteq> None \<longrightarrow>
                    c + sum_list (map sectors (allocated ext i j)) < 4294967296
            then None else Some RangeError)"
  using assms
proof (induction "entryCount (table ext) - i" arbitrary: ext i c)
  case 0
  then have "\<not> i < entryCount (table ext)" by simp
  then show ?case by (auto simp: stamp_loop_done)
next
  case (Suc k)
  then have lt: "i < entryCount (table ext)" and k: "k = entryCount (table ext) - Suc i" by auto
  let ?ok = "\<lambda>ext i c. \<forall>j. i \<le> j \<and> j < entryCount (table ext) \<and> entries (table ext) j \<noteq> None \<longrightarrow>
                    c + sum_list (map sectors (allocated ext i j)) < (4294967296 :: nat)"
  show ?case
  proof (cases "entries (table ext) i")
    case None
    have al: "allocated ext i j = allocated ext (Suc i) j" if "i < j" for j
      using that None by (simp add: allocated_step)
    have "?ok ext i c \<longleftrightarrow> ?ok ext (Suc i) c"
    proof
      assume a: "?ok ext i c"
      show "?ok ext (Suc i) c"
      proof (intro allI impI)
        fix j assume j: "Suc i \<le> j \<and> j < entryCount (table ext) \<and> entries (table ext) j \<noteq> None"
        then have "c + sum_list (map sectors (allocated ext i j)) < 4294967296"
          using a by simp
        then show "c + sum_list (map sectors (allocated ext (Suc i) j)) < 4294967296"
          using j al [of j] by simp
      qed
    next
      assume a: "?ok ext (Suc i) c"
      show "?ok ext i c"
      proof (intro allI impI)
        fix j assume j: "i \<le> j \<and> j < entryCount (table ext) \<and> entries (table ext) j \<noteq> None"
        then have s: "Suc i \<le> j" using None by (cases "j = i") auto
        then have "c + sum_list (map sectors (allocated ext (Suc i) j)) < 4294967296"
          using a j by simp
        then show "c + sum_list (map sectors (allocated ext i j)) < 4294967296"
          using s al [of j] by simp
      qed
    qed
    then show ?thesis
      unfolding stamp_loop_skip [OF lt None] Suc.hyps(1) [OF k Suc.prems] by simp
  next
    case (Some b)
    have fit: "i * 4 + 4 \<le> length (Table.buffer (table ext))"
      using lt Suc.prems by simp
    show ?thesis
    proof (cases "writeUInt32BE (Table.buffer (table ext)) c (i * 4)")
      case (Inl e)
      then have big: "4294967296 \<le> c" and e: "e = RangeError"
        using fit by (auto simp: writeUInt32BE_def split: if_splits)
      have "\<not> ?ok ext i c"
      proof
        assume "?ok ext i c"
        then have "c + sum_list (map sectors (allocated ext i i)) < 4294967296"
          using lt Some by simp
        then show False using big by (simp add: allocated_def)
      qed
      then show ?thesis
        unfolding stamp_loop_fail [OF lt Some Inl] e by simp
    next
      case (Inr B1)
      then have small: "c < 4294967296"
        by (auto simp: writeUInt32BE_def split: if_splits)
      let ?ext1 = "ext\<lparr>table := (table ext)\<lparr>Table.buffer := B1\<rparr>\<rparr>"
      have k1: "k = entryCount (table ?ext1) - Suc i" using k by simp
      have p1: "entryCount (table ?ext1) * 4 \<le> length (Table.buffer (table ?ext1))"
        using Suc.prems writeUInt32BE_entry(1) [OF Inr] by simp
      have al: "allocated ext i j = b # allocated ext (Suc i) j" if "i < j" for j
        using that Some by (simp add: allocated_step)
      have "?ok ext i c \<longleftrightarrow> ?ok ?ext1 (Suc i) (c + sectors b)"
      proof
        assume a: "?ok ext i c"
        show "?ok ?ext1 (Suc i) (c + sectors b)"
        proof (intro allI impI)
          fix j assume j: "Suc i \<le> j \<and> j < entryCount (table ?ext1) \<and>
                           entries (table ?ext1) j \<noteq> None"
          then have "c + sum_list (map sectors (allocated ext i j)) < 4294967296"
            using a by simp
          then show "c + sectors b + sum_list (map sectors (allocated ?ext1 (Suc i) j)) < 4294967296"
            using j al [of j] by simp
        qed
      next
        assume a: "?ok ?ext1 (Suc i) (c + sectors b)"
        show "?ok ext i c"
        proof (intro allI impI)
          fix j assume j: "i \<le> j \<and> j < entryCount (table ext) \<and> entries (table ext) j \<noteq> None"
          show "c + sum_list (map sectors (allocated ext i j)) < 4294967296"
          proof (cases "j = i")
            case True
            then show ?thesis using small by (simp add: allocated_def)
          next
            case False
            with j have s: "i < j" by simp
            then have "c + sectors b + sum_list (map sectors (allocated ?ext1 (Suc i) j)) < 4294967296"
              using a j by simp
            then show ?thesis using al [OF s] by simp
          qed
        qed
      qed
      then show ?thesis
        unfolding stamp_loop_step [OF lt Some Inr] Suc.hyps(1) [OF k1 p1] by simp
    qed
  qed
qed

lemma writeFile_status:
  assumes "builder_inv v"
  shows "fst (writeFile lib v) =
           (if \<forall>i < entryCount (table (sparseFile v)).
                 entries (table (sparseFile v)) i \<noteq> None \<longrightarrow>
                 cursor (sparseFile v) i < 4294967296
            then None else Some RangeError)"
proof -
  have fit: "entryCount (table (sparseFile v)) * 4 \<le> length (Table.buffer (table (sparseFile v)))"
    using assms by (simp add: builder_inv_def)
  have "fst (writeFile lib v) = fst (stamp_loop (sparseFile v) 0 (startOffset (sparseFile v)))"
    by (simp add: writeFile_eq Let_def)
  then show ?thesis
    unfolding stamp_loop_status [OF fit] by (auto simp: cursor_def)
qed

text \<open>
  Claim C3, as amended. For a \<open>VHDFile\<close> made by the constructor and any sequence of
  \<open>writeBuffer\<close> and \<open>writeFile\<close> calls, \<open>writeFile\<close> returns when the \<open>cursor\<close> of
  every allocated block with an index below \<open>entryCount\<close> fits 32 bits, and throws a
  \<open>RangeError\<close> otherwise. When it returns it has written, in this order: the footer,
  the dynamic disk header, the table, the buffer of every allocated block with an index
  below \<open>entryCount\<close> by ascending index, and the same footer again; in the table
  written, the entry of an allocated block with an index below \<open>entryCount\<close> is the
  big-endian \<open>cursor\<close> of its index and the entry of a block never written is
  \<open>0xFFFFFFFF\<close>. Every block written takes 4097 whole sectors. A block allocated at an
  index from \<open>entryCount\<close> on, by a write past the capacity of the disk, is neither
  stamped nor written.
\<close>

theorem writeFile_layout:
  assumes "built lib virtualSize ts ops = Inr v"
  shows "fst (writeFile lib v) =
           (if \<forall>i < entryCount (table (sparseFile v)).
                 entries (table (sparseFile v)) i \<noteq> None \<longrightarrow>
                 cursor (sparseFile v) i < 4294967296
            then None else Some RangeError) \<and>
         (fst (writeFile lib v) = None \<longrightarrow>
            snd (snd (writeFile lib v)) =
              [createFooter lib (actualSize (geomtry v)) (VHDFile.timestamp v) (geomtry v)
                 HARD_DISK_TYPE_DYNAMIC (Num (struct_size lib fuFooter)),
               createDynamicDiskHeader lib (entryCount (table (sparseFile v))) (VHDFile.blockSize v),
               Table.buffer (table (sparseFile (fst (snd (writeFile lib v)))))] @
              map Block.buffer (allocated (sparseFile v) 0 (entryCount (table (sparseFile v)))) @
              [createFooter lib (actualSize (geomtry v)) (VHDFile.timestamp v) (geomtry v)
                 HARD_DISK_TYPE_DYNAMIC (Num (struct_size lib fuFooter))] \<and>
            (\<forall>i < entryCount (table (sparseFile v)).
               bat_entry (Table.buffer (table (sparseFile (fst (snd (writeFile lib v)))))) i =
                 (case entries (table (sparseFile v)) i of
                    None \<Rightarrow> [255, 255, 255, 255]
                  | Some b \<Rightarrow> uint32BE (cursor (sparseFile v) i)))) \<and>
         (\<forall>b \<in> set (allocated (sparseFile v) 0 (entryCount (table (sparseFile v)))).
            length (Block.buffer b) = 4097 * VHD_SECTOR_SIZE \<and> sectors b = 4097)"
proof -
  let ?ext = "sparseFile v"
  have inv: "builder_inv v" by (rule builder_inv_built [OF assms(1)])
  have 0: "fst (writeFile lib v) =
           (if \<forall>i < entryCount (table ?ext).
                 entries (table ?ext) i \<noteq> None \<longrightarrow> cursor ?ext i < 4294967296
            then None else Some RangeError)"
    by (rule writeFile_status [OF inv])
  have 12: "snd (snd (writeFile lib v)) =
           [createFooter lib (actualSize (geomtry v)) (VHDFile.timestamp v) (geomtry v)
              HARD_DISK_TYPE_DYNAMIC (Num (struct_size lib fuFooter)),
            createDynamicDiskHeader lib (entryCount (table ?ext)) (VHDFile.blockSize v),
            Table.buffer (table (sparseFile (fst (snd (writeFile lib v)))))] @
           map Block.buffer (allocated ?ext 0 (entryCount (table ?ext))) @
           [createFooter lib (actualSize (geomtry v)) (VHDFile.timestamp v) (geomtry v)
              HARD_DISK_TYPE_DYNAMIC (Num (struct_size lib fuFooter))] \<and>
           (\<forall>i < entryCount (table ?ext).
              bat_entry (Table.buffer (table (sparseFile (fst (snd (writeFile lib v)))))) i =
                (case entries (table ?ext) i of
                   None \<Rightarrow> [255, 255, 255, 255]
                 | Some b \<Rightarrow> uint32BE (cursor ?ext i)))"
    if ok: "fst (writeFile lib v) = None"
  proof -
    obtain err ext' where r: "stamp_loop ?ext 0 (startOffset ?ext) = (err, ext')"
      by (cases "stamp_loop ?ext 0 (startOffset ?ext)")
    from ok have err: "err = None" by (simp add: writeFile_eq Let_def r)
    from stamp_loop_result [OF r] obtain B' where
      e: "ext' = ?ext\<lparr>table := (table ?ext)\<lparr>Table.buffer := B'\<rparr>\<rparr>"
      and s: "stamped ?ext 0 (startOffset ?ext) None B'" using err by blast
    have v': "fst (snd (writeFile lib v)) = v\<lparr>sparseFile := ext'\<rparr>"
      by (simp add: writeFile_eq Let_def r)
    have 1: "snd (snd (writeFile lib v)) =
             [createFooter lib (actualSize (geomtry v)) (VHDFile.timestamp v) (geomtry v)
                HARD_DISK_TYPE_DYNAMIC (Num (struct_size lib fuFooter)),
              createDynamicDiskHeader lib (entryCount (table ?ext)) (VHDFile.blockSize v),
              Table.buffer (table (sparseFile (fst (snd (writeFile lib v)))))] @
             map Block.buffer (allocated ?ext 0 (entryCount (table ?ext))) @
             [createFooter lib (actualSize (geomtry v)) (VHDFile.timestamp v) (geomtry v)
                HARD_DISK_TYPE_DYNAMIC (Num (struct_size lib fuFooter))]"
      by (simp add: writeFile_eq Let_def r err)
    have 2: "bat_entry (Table.buffer (table (sparseFile (fst (snd (writeFile lib v)))))) i =
                (case entries (table ?ext) i of
                   None \<Rightarrow> [255, 255, 255, 255]
                 | Some b \<Rightarrow> uint32BE (cursor ?ext i))" if i: "i < entryCount (table ?ext)" for i
    proof (cases "entries (table ?ext) i")
      case None
      then have "bat_entry B' i = bat_entry (Table.buffer (table ?ext)) i"
        using s by (simp add: stamped_def)
      also have "\<dots> = [255, 255, 255, 255]"
        using inv i None by (simp add: builder_inv_def)
      finally show ?thesis using None by (simp add: v' e)
    next
      case (Some b)
      then have "bat_entry B' i =
                   uint32BE (startOffset ?ext + sum_list (map sectors (allocated ?ext 0 i)))"
        using s i by (simp add: stamped_def)
      then show ?thesis using Some by (simp add: v' e cursor_def)
    qed
    from 1 2 show ?thesis by blast
  qed
  have 3: "length (Block.buffer b) = 4097 * VHD_SECTOR_SIZE \<and> sectors b = 4097"
    if "b \<in> set (allocated ?ext 0 (entryCount (table ?ext)))" for b
  proof -
    from allocated_mem [OF that] obtain k where "entries (table ?ext) k = Some b" ..
    with inv have "length (Block.buffer b) = 4097 * VHD_SECTOR_SIZE"
      by (simp add: builder_inv_def)
    then show ?thesis by (simp add: sectors_def VHD_SECTOR_SIZE_def)
  qed
  from 0 12 3 show ?thesis by blast
qed

lemma demo_file_new: "VHDFile_new stub_lib 4194304 7 = Inr demo_file"
  by (simp add: VHDFile_new_def SparseExtent_new_def createEmptyTable_def ceil_div_def
        VHD_SECTOR_SIZE_def stub_lib_def demo_file_def Let_def)

theorem writeFile_ignores_blocks_past_capacity_witness:
  "VHDFile_new stub_lib 4194304 7 = Inr demo_file \<and>
   fst (VHDFile_writeBuffer demo_file [9] 4194304) = None \<and>
   fst (writeFile stub_lib (snd (VHDFile_writeBuffer demo_file [9] 4194304))) =
     fst (writeFile stub_lib demo_file) \<and>
   snd (snd (writeFile stub_lib (snd (VHDFile_writeBuffer demo_file [9] 4194304)))) =
     snd (snd (writeFile stub_lib demo_file)) \<and>
   entries (table (sparseFile (snd (VHDFile_writeBuffer demo_file [9] 4194304)))) 2 \<noteq> None"
proof -
  have h: "entryCount (table (sparseFile demo_file)) *
           SparseExtent.blockSize (sparseFile demo_file) \<le> 4194304"
    by (simp add: demo_file_def)
  have b: "SparseExtent.blockSize (sparseFile demo_file) = 2097152"
    by (simp add: demo_file_def)
  from writeFile_ignores_blocks_past_capacity [OF h, of "[9]" stub_lib] demo_file_new
  show ?thesis by (simp add: b)
qed

lemma demo_written_eq:
  "demo_written =
     demo_file\<lparr>sparseFile := (sparseFile demo_file)\<lparr>table := (table (sparseFile demo_file))
       \<lparr>entries := (\<lambda>i. if i = 1 then Some (block_written (sparseFile demo_file) [1, 2] 2097157 1)
                         else None)\<rparr>\<rparr>\<rparr>"
proof -
  have t: "touched 2097152 [1, 2] 2097157 i \<longleftrightarrow> i = 1" for i
    by (auto simp: touched_def ceil_div_def)
  have bs: "0 < SparseExtent.blockSize (sparseFile demo_file)"
    "SparseExtent.blockSize (sparseFile demo_file) = 2097152"
    "entries (table (sparseFile demo_file)) = (\<lambda>i. None)"
    by (simp_all add: demo_file_def)
  have e: "(\<lambda>i. if touched 2097152 [1, 2] 2097157 i
                 then Some (block_written (sparseFile demo_file) [1, 2] 2097157 i)
                 else entries (table (sparseFile demo_file)) i)
           = (\<lambda>i. if i = 1 then Some (block_written (sparseFile demo_file) [1, 2] 2097157 1)
                   else None)"
    by (intro ext) (simp add: t bs(3))
  have "demo_written =
     demo_file\<lparr>sparseFile := (sparseFile demo_file)\<lparr>table := (table (sparseFile demo_file))
       \<lparr>entries := (\<lambda>i. if touched 2097152 [1, 2] 2097157 i
                 then Some (block_written (sparseFile demo_file) [1, 2] 2097157 i)
                 else entries (table (sparseFile demo_file)) i)\<rparr>\<rparr>\<rparr>"
    by (simp add: demo_written_def VHDFile_writeBuffer_def writeBuffer_result [OF bs(1)] bs(2))
  then show ?thesis unfolding e .
qed

lemma demo_built: "built stub_lib 4194304 7 [WriteBuffer [1, 2] 2097157] = Inr demo_written"
  by (simp add: built_def demo_file_new demo_written_def)

lemma demo_stamp:
  "stamp_loop (sparseFile demo_written) 0 (startOffset (sparseFile demo_written)) =
     (None, (sparseFile demo_written)\<lparr>table := (table (sparseFile demo_written))
        \<lparr>Table.buffer := take 4 (replicate 512 255) @ uint32BE 4 @ drop 8 (replicate 512 255)\<rparr>\<rparr>)"
proof -
  have f: "entryCount (table (sparseFile demo_written)) = 2"
    "entries (table (sparseFile demo_written)) 0 = None"
    "entries (table (sparseFile demo_written)) (Suc 0) =
       Some (block_written (sparseFile demo_file) [1, 2] 2097157 1)"
    "Table.buffer (table (sparseFile demo_written)) = replicate 512 255"
    "startOffset (sparseFile demo_written) = 4"
    by (simp_all add: demo_written_eq demo_file_def)
  have w: "writeUInt32BE (replicate 512 255) 4 4 =
             Inr (take 4 (replicate 512 255) @ uint32BE 4 @ drop 8 (replicate 512 255))"
    by (simp add: writeUInt32BE_def)
  have 0: "stamp_loop (sparseFile demo_written) 0 4 = stamp_loop (sparseFile demo_written) (Suc 0) 4"
    by (rule stamp_loop_skip) (simp_all add: f)
  have 1: "stamp_loop (sparseFile demo_written) (Suc 0) 4 =
           stamp_loop ((sparseFile demo_written)\<lparr>table := (table (sparseFile demo_written))
             \<lparr>Table.buffer := take 4 (replicate 512 255) @ uint32BE 4 @ drop 8 (replicate 512 255)\<rparr>\<rparr>)
             (Suc (Suc 0))
             (4 + sectors (block_written (sparseFile demo_file) [1, 2] 2097157 1))"
    by (rule stamp_loop_step) (simp_all add: f w)
  show ?thesis
    unfolding f(5) 0 1 by (rule stamp_loop_done) (simp add: f)
qed

theorem writeFile_layout_witness:
  "built stub_lib 4194304 7 [WriteBuffer [1, 2] 2097157] = Inr demo_written \<and>
   fst (writeFile stub_lib demo_written) = None \<and>
   cursor (sparseFile demo_written) 1 = 4 \<and>
   length (snd (snd (writeFile stub_lib demo_written))) = 5 \<and>
   snd (snd (writeFile stub_lib demo_written)) ! 0 = snd (snd (writeFile stub_lib demo_written)) ! 4 \<and>
   bat_entry (snd (snd (writeFile stub_lib demo_written)) ! 2) 0 = [255, 255, 255, 255] \<and>
   bat_entry (snd (snd (writeFile stub_lib demo_written)) ! 2) 1 = [0, 0, 0, 4] \<and>
   length (snd (snd (writeFile stub_lib demo_written)) ! 3) = 4097 * 512"
proof -
  have n: "entryCount (table (sparseFile demo_written)) = 2"
    and e: "entries (table (sparseFile demo_written)) 0 = None"
      "entries (table (sparseFile demo_written)) (Suc 0) =
         Some (block_written (sparseFile demo_file) [1, 2] 2097157 1)"
    and so: "startOffset (sparseFile demo_written) = 4"
    by (simp_all add: demo_written_eq demo_file_def)
  have a: "allocated (sparseFile demo_written) 0 2 =
             [block_written (sparseFile demo_file) [1, 2] 2097157 1]"
    "allocated (sparseFile demo_written) 0 (Suc 0) = []"
    by (simp_all add: allocated_def e List.map_filter_simps upt_rec numeral_2_eq_2)
  have c: "cursor (sparseFile demo_written) 1 = 4"
    by (simp add: cursor_def so a)
  have small: "\<forall>i < entryCount (table (sparseFile demo_written)).
                 entries (table (sparseFile demo_written)) i \<noteq> None \<longrightarrow>
                 cursor (sparseFile demo_written) i < 4294967296"
  proof (intro allI impI)
    fix i assume "i < entryCount (table (sparseFile demo_written))"
      and "entries (table (sparseFile demo_written)) i \<noteq> None"
    then have "i = 1" using e(1) by (cases "i = 0") (auto simp: n)
    then show "cursor (sparseFile demo_written) i < 4294967296" using c by simp
  qed
  note T = writeFile_layout [OF demo_built]
  have ok: "fst (writeFile stub_lib demo_written) = None"
    unfolding T [THEN conjunct1] if_P [OF small] by (rule refl)
  note L = T [THEN conjunct2, THEN conjunct1, THEN mp, OF ok]
  note S = T [THEN conjunct2, THEN conjunct2]
  from L S show ?thesis
    by (simp add: demo_built ok c n a e cursor_def so uint32BE_def VHD_SECTOR_SIZE_def)
qed

lemma demo_overflow_eq:
  "demo_overflow =
     demo_file\<lparr>sparseFile := (sparseFile demo_file)\<lparr>table := (table (sparseFile demo_file))
       \<lparr>entries := (\<lambda>i. if i = 2 then Some (block_written (sparseFile demo_file) [9] 4194304 2)
                         else None)\<rparr>\<rparr>\<rparr>"
proof -
  have t: "touched 2097152 [9] 4194304 i \<longleftrightarrow> i = 2" for i
    by (auto simp: touched_def ceil_div_def)
  have bs: "0 < SparseExtent.blockSize (sparseFile demo_file)"
    "SparseExtent.blockSize (sparseFile demo_file) = 2097152"
    "entries (table (sparseFile demo_file)) = (\<lambda>i. None)"
    by (simp_all add: demo_file_def)
  have e: "(\<lambda>i. if touched 2097152 [9] 4194304 i
                 then Some (block_written (sparseFile demo_file) [9] 4194304 i)
                 else entries (table (sparseFile demo_file)) i)
           = (\<lambda>i. if i = 2 then Some (block_written (sparseFile demo_file) [9] 4194304 2)
                   else None)"
    by (intro ext) (simp add: t bs(3))
  have "demo_overflow =
     demo_file\<lparr>sparseFile := (sparseFile demo_file)\<lparr>table := (table (sparseFile demo_file))
       \<lparr>entries := (\<lambda>i. if touched 2097152 [9] 4194304 i
                 then Some (block_written (sparseFile demo_file) [9] 4194304 i)
                 else entries (table (sparseFile demo_file)) i)\<rparr>\<rparr>\<rparr>"
    by (simp add: demo_overflow_def VHDFile_writeBuffer_def writeBuffer_result [OF bs(1)] bs(2))
  then show ?thesis unfolding e .
qed

lemma demo_overflow_built:
  "built stub_lib 4194304 7 [WriteBuffer [9] 4194304] = Inr demo_overflow"
  by (simp add: built_def demo_file_new demo_overflow_def)

lemma demo_overflow_stamp:
  "stamp_loop (sparseFile demo_overflow) 0 (startOffset (sparseFile demo_overflow)) =
     (None, sparseFile demo_overflow)"
proof -
  have f: "entryCount (table (sparseFile demo_overflow)) = 2"
    "entries (table (sparseFile demo_overflow)) 0 = None"
    "entries (table (sparseFile demo_overflow)) (Suc 0) = None"
    by (simp_all add: demo_overflow_eq demo_file_def)
  have 0: "stamp_loop (sparseFile demo_overflow) 0 c = stamp_loop (sparseFile demo_overflow) (Suc 0) c"
    for c by (rule stamp_loop_skip) (simp_all add: f)
  have 1: "stamp_loop (sparseFile demo_overflow) (Suc 0) c =
           stamp_loop (sparseFile demo_overflow) (Suc (Suc 0)) c" for c
    by (rule stamp_loop_skip) (simp_all add: f)
  show ?thesis
    unfolding 0 1 by (rule stamp_loop_done) (simp add: f)
qed

lemma demo_overflow_block:
  "dataBuffer (block_written (sparseFile demo_file) [9] 4194304 2) ! 0 = 9"
  "length (Block.buffer (block_written (sparseFile demo_file) [9] 4194304 2)) = 2097664"
proof -
  have b: "SparseExtent.blockSize (sparseFile demo_file) = 2097152"
    "entries (table (sparseFile demo_file)) 2 = None"
    by (simp_all add: demo_file_def)
  have m: "(2097152 :: nat) mod (VHD_SECTOR_SIZE * 8) = 0" by (simp add: VHD_SECTOR_SIZE_def)
  have s: "sub_buffer 2097152 [9] 4194304 2 = [9]" "in_block_offset 2097152 4194304 2 = 0"
    by (simp_all add: sub_buffer_def in_block_offset_def)
  have w: "block_written (sparseFile demo_file) [9] 4194304 2 =
             writeData (Block_new 2097152) [9] 0"
    by (simp add: block_written_def b s)
  have k: "0 < length (dataBuffer (Block_new 2097152))"
    using Block_new_data(2) [OF m] by linarith
  show "dataBuffer (block_written (sparseFile demo_file) [9] 4194304 2) ! 0 = 9"
    unfolding w dataBuffer_writeData(2) [OF k] by simp
  show "length (Block.buffer (block_written (sparseFile demo_file) [9] 4194304 2)) = 2097664"
    unfolding w
    by (simp add: writeData_size [OF bitmapBuffer_Block_new(2)] Block_new_builder
          VHD_SECTOR_SIZE_def)
qed

text \<open>
  The claim as it was stated, for each allocated block, fails on this input: after one
  byte was written at the first position past the capacity of a disk of two blocks, block
  2 is allocated and holds the byte, and \<open>writeFile\<close> returns having written the footer,
  the header, the table and the footer again; the block is not in the file and its entry
  in the table is still \<open>0xFFFFFFFF\<close>.
\<close>

theorem writeFile_layout_counterexample:
  "built stub_lib 4194304 7 [WriteBuffer [9] 4194304] = Inr demo_overflow \<and>
   (\<exists>b. entries (table (sparseFile demo_overflow)) 2 = Some b \<and> dataBuffer b ! 0 = 9 \<and>
        Block.buffer b \<notin> set (snd (snd (writeFile stub_lib demo_overflow)))) \<and>
   fst (writeFile stub_lib demo_overflow) = None \<and>
   length (snd (snd (writeFile stub_lib demo_overflow))) = 4 \<and>
   bat_entry (Table.buffer (table (sparseFile (fst (snd (writeFile stub_lib demo_overflow)))))) 2
     = [255, 255, 255, 255]"
proof -
  let ?b = "block_written (sparseFile demo_file) [9] 4194304 2"
  have f: "entryCount (table (sparseFile demo_overflow)) = 2"
    "entries (table (sparseFile demo_overflow)) 0 = None"
    "entries (table (sparseFile demo_overflow)) (Suc 0) = None"
    "entries (table (sparseFile demo_overflow)) 2 = Some ?b"
    "Table.buffer (table (sparseFile demo_overflow)) = replicate 512 255"
    by (simp_all add: demo_overflow_eq demo_file_def)
  have a: "allocated (sparseFile demo_overflow) 0 2 = []"
    by (simp add: allocated_def f List.map_filter_simps upt_rec numeral_2_eq_2)
  have out: "snd (snd (writeFile stub_lib demo_overflow)) =
      [createFooter stub_lib (actualSize (geomtry demo_overflow)) (VHDFile.timestamp demo_overflow)
         (geomtry demo_overflow) HARD_DISK_TYPE_DYNAMIC (Num (struct_size stub_lib fuFooter)),
       createDynamicDiskHeader stub_lib 2 (VHDFile.blockSize demo_overflow),
       replicate 512 255,
       createFooter stub_lib (actualSize (geomtry demo_overflow)) (VHDFile.timestamp demo_overflow)
         (geomtry demo_overflow) HARD_DISK_TYPE_DYNAMIC (Num (struct_size stub_lib fuFooter))]"
    by (simp add: writeFile_eq Let_def demo_overflow_stamp f a)
  have ok: "fst (writeFile stub_lib demo_overflow) = None"
    by (simp add: writeFile_eq Let_def demo_overflow_stamp)
  have tb: "Table.buffer (table (sparseFile (fst (snd (writeFile stub_lib demo_overflow))))) =
              replicate 512 255"
    by (simp add: writeFile_eq Let_def demo_overflow_stamp f)
  have short: "\<forall>x \<in> set (snd (snd (writeFile stub_lib demo_overflow))). length x \<le> 1024"
    unfolding out
    by (simp add: createFooter_def createDynamicDiskHeader_def stub_lib_def footerCookie_def
          headerCookie_def)
  have "Block.buffer ?b \<notin> set (snd (snd (writeFile stub_lib demo_overflow)))"
  proof
    assume "Block.buffer ?b \<in> set (snd (snd (writeFile stub_lib demo_overflow)))"
    with short have "length (Block.buffer ?b) \<le> 1024" by blast
    then show False by (simp add: demo_overflow_block(2))
  qed
  then have ex: "\<exists>b. entries (table (sparseFile demo_overflow)) 2 = Some b \<and> dataBuffer b ! 0 = 9 \<and>
        Block.buffer b \<notin> set (snd (snd (writeFile stub_lib demo_overflow)))"
    using f(4) demo_overflow_block(1) by blast
  have be: "bat_entry (replicate 512 255) 2 = [255, 255, 255, 255 :: byte]"
    by (simp add: bat_entry_def numeral_eq_Suc)
  from ex show ?thesis
    by (simp add: demo_overflow_built ok out tb be)
qed

section \<open>Properties of the streaming converter\<close>

lemmas stream_defs = Readable_read_def pushFileUntilFull.simps
        pushNextUntilFull.simps pushNextBlock_def async_def filePadding_def push_def
        Buffer_alloc_def js_rem_def chunkSize_def two_grains_def
        Let_def two_grains_after_def two_grains_chunks_def

lemma read_6: "Readable_read sink (two_grains_after lib now 6) = (Inr (), two_grains_after lib now 6)"
  by (simp add: Readable_read_def two_grains_after_def)

lemma read_5: "Readable_read sink (two_grains_after lib now 5) = (Inr (), two_grains_after lib now 6)"
  by (simp add: stream_defs)

lemma nat_4: "(4::nat) = Suc (Suc (Suc (Suc 0)))"
  by simp

lemma read_4:
  "Readable_read sink (two_grains_after lib now 4) =
     (Inr (), two_grains_after lib now (if sink 4 then 6 else 5))"
  by (simp add: stream_defs numeral_2_eq_2 numeral_3_eq_3 nat_4)

lemma read_2:
  "Readable_read sink (two_grains_after lib now 2) =
     (Inr (), two_grains_after lib now (if sink 3 then (if sink 4 then 6 else 5) else 4))"
  by (simp add: stream_defs numeral_2_eq_2 numeral_3_eq_3 nat_4)

lemma read_0:
  "Readable_read sink (two_grains_after lib now 0) =
     (Inr (), two_grains_after lib now
        (if sink 1 then (if sink 3 then (if sink 4 then 6 else 5) else 4) else 2))"
  by (simp add: stream_defs numeral_2_eq_2 numeral_3_eq_3 nat_4)

lemma two_grains_start:
  "ReadableRawVHDStream_new lib now 8 two_grains = two_grains_after lib now 0"
  by (simp add: ReadableRawVHDStream_new_def two_grains_after_def)

lemma two_grains_drive:
  "drive 4 sink (ReadableRawVHDStream_new lib now 8 two_grains) = two_grains_after lib now 6"
proof -
  have "drive 4 sink s =
          snd (Readable_read sink (snd (Readable_read sink
            (snd (Readable_read sink (snd (Readable_read sink s)))))))" for s
    by (simp add: nat_4)
  then show ?thesis
    by (simp add: two_grains_start read_0 read_2 read_4 read_5 read_6)
qed

lemma drive_add: "drive (m + n) sink s = drive n sink (drive m sink s)"
  by (induction m arbitrary: s) simp_all

lemma drive_done: "drive n sink (two_grains_after lib now 6) = two_grains_after lib now 6"
  by (induction n) (simp_all add: read_6)

text \<open>
  Claim C4, as amended. For the grains \<open>(0, "AA")\<close> and \<open>(4, "BB")\<close> and a declared
  capacity of 8 bytes, whatever the consumer answers to each push, after four calls of
  \<open>_read\<close> (and after any number of further calls) the converter has pushed \<open>AA\<close>, two
  zero bytes, \<open>BB\<close>, two more zero bytes that fill the disk up to its capacity, the
  fixed-disk footer of the declared size and the end of the stream; nothing was reported
  as an error. The bytes before the footer are \<open>AA\0\0BB\0\0\<close>, not \<open>AA\0\0BB\<close>.
\<close>

theorem two_grains_stream:
  "pushed (drive (4 + n) sink (ReadableRawVHDStream_new lib now 8 two_grains)) =
     [Some [65, 65], Some [0, 0], Some [66, 66], Some [0, 0],
      Some (createFooter lib 8 now (computeGeometryForSize lib 8) HARD_DISK_TYPE_FIXED Undefined),
      None] \<and>
   emitted_bytes (drive (4 + n) sink (ReadableRawVHDStream_new lib now 8 two_grains)) =
     [65, 65, 0, 0, 66, 66, 0, 0] @
     createFooter lib 8 now (computeGeometryForSize lib 8) HARD_DISK_TYPE_FIXED Undefined \<and>
   done' (drive (4 + n) sink (ReadableRawVHDStream_new lib now 8 two_grains)) \<and>
   nextTick (drive (4 + n) sink (ReadableRawVHDStream_new lib now 8 two_grains)) = []"
proof -
  have d: "drive (4 + n) sink (ReadableRawVHDStream_new lib now 8 two_grains) =
             two_grains_after lib now 6"
    by (simp only: drive_add two_grains_drive drive_done)
  show ?thesis
    unfolding d by (simp add: emitted_bytes_def two_grains_after_def two_grains_chunks_def)
qed

theorem two_grains_stream_witness:
  "emitted_bytes (drive 4 eager_sink (ReadableRawVHDStream_new stub_lib 0 8 two_grains)) =
     [65, 65, 0, 0, 66, 66, 0, 0] @ [99, 111, 110, 101, 99, 116, 105, 120] @ replicate 504 0"
  using two_grains_stream [of 0 eager_sink stub_lib 0]
  by (simp add: createFooter_def stub_lib_def footerCookie_def)

text \<open>
  The claim as it was stated fails on this input: with a consumer that always wants more,
  the bytes emitted are not \<open>AA\0\0BB\<close> followed by the footer.
\<close>

theorem two_grains_stream_counterexample:
  "emitted_bytes (drive 4 eager_sink (ReadableRawVHDStream_new stub_lib 0 8 two_grains)) \<noteq>
     [65, 65, 0, 0, 66, 66] @
     createFooter stub_lib 8 0 (computeGeometryForSize stub_lib 8) HARD_DISK_TYPE_FIXED Undefined"
  by (simp add: two_grains_drive emitted_bytes_def two_grains_after_def two_grains_chunks_def
        createFooter_def stub_lib_def footerCookie_def)

lemma async_simps [simp]:
  "snd (async c) = snd c"
  "fst (async (Inl e, s)) = Rejected e"
  "fst (async (Inr v, s)) = Resolved v"
  by (simp_all add: async_def split: prod.splits sum.splits)

lemma pushNextBlock_frame:
  assumes "pushNextBlock sink s = (r, s')"
  shows "errorEvents s' = errorEvents s \<and> (\<exists>post. nextTick s' = nextTick s @ post)"
proof -
  obtain s4 where c: "pushNextBlock sink s = async (pushFileUntilFull sink s4)"
    and e: "errorEvents s4 = errorEvents s" and n: "\<exists>post. nextTick s4 = nextTick s @ post"
    by (cases "vmdkParser s")
       (auto simp: pushNextBlock_def Let_def filePadding_def split: prod.splits)
  obtain r4 s4' where f: "pushFileUntilFull sink s4 = (r4, s4')"
    by (cases "pushFileUntilFull sink s4")
  from assms c f have "s' = s4'" by (auto simp: async_def split: sum.splits)
  with pushFileUntilFull_frame [OF f] e n show ?thesis by simp
qed

lemma pushNextUntilFull_frame:
  "pushNextUntilFull sink s = (r, s') \<Longrightarrow>
     errorEvents s' = errorEvents s \<and> (\<exists>post. nextTick s' = nextTick s @ post)"
proof (induction sink s rule: pushNextUntilFull.induct)
  case (1 sink s)
  show ?case
  proof (cases "done' s")
    case True
    with "1.prems" show ?thesis by (simp add: pushNextUntilFull.simps)
  next
    case False
    obtain p s1 where b: "pushNextBlock sink s = (p, s1)" by (cases "pushNextBlock sink s")
    note f1 = pushNextBlock_frame [OF b]
    show ?thesis
    proof (cases p)
      case (Rejected e)
      with "1.prems" False b have "s' = s1" by (simp add: pushNextUntilFull.simps [of sink s])
      with f1 show ?thesis by simp
    next
      case (Resolved again)
      show ?thesis
      proof (cases again)
        case False
        with "1.prems" \<open>\<not> done' s\<close> b Resolved have "s' = s1"
          by (simp add: pushNextUntilFull.simps [of sink s])
        with f1 show ?thesis by simp
      next
        case True
        with "1.prems" \<open>\<not> done' s\<close> b Resolved have "pushNextUntilFull sink s1 = (r, s')"
          by (simp add: pushNextUntilFull.simps [of sink s])
        from "1.IH" [OF \<open>\<not> done' s\<close> b [symmetric] Resolved True this] f1
        show ?thesis by auto
      qed
    qed
  qed
qed

lemma pushNextBlock_out_of_order:
  assumes "vmdkParser s = (offset, buf) # rest" and "offset < position s"
  shows "nextTick (snd (pushNextBlock sink s)) = nextTick s @ [Message order_message]"
    and "errorEvents (snd (pushNextBlock sink s)) = errorEvents s"
    and "(\<exists>again. fst (pushNextBlock sink s) = Resolved again) \<or>
         fst (pushNextBlock sink s) = Rejected RangeError"
proof -
  let ?pad = "int offset - int (position s)"
  let ?s1 = "s\<lparr>vmdkParser := rest, nextTick := nextTick s @ [Message order_message]\<rparr>"
  let ?s4 = "(filePadding ?pad ?s1)\<lparr>currentFile := currentFile (filePadding ?pad ?s1) @ [Grain buf],
              position := offset + length buf\<rparr>"
  have neg: "?pad < 0" using assms(2) by simp
  have c: "pushNextBlock sink s = async (pushFileUntilFull sink ?s4)"
    using assms(1) neg by (simp add: pushNextBlock_def Let_def)
  have n4: "nextTick ?s4 = nextTick s @ [Message order_message]" "errorEvents ?s4 = errorEvents s"
    by (simp_all add: filePadding_def Let_def)
  obtain r4 s4' where f: "pushFileUntilFull sink ?s4 = (r4, s4')"
    by (cases "pushFileUntilFull sink ?s4")
  note fr = pushFileUntilFull_frame [OF f]
  show "nextTick (snd (pushNextBlock sink s)) = nextTick s @ [Message order_message]"
    using fr n4 by (simp add: c f)
  show "errorEvents (snd (pushNextBlock sink s)) = errorEvents s"
    using fr n4 by (simp add: c f)
  show "(\<exists>again. fst (pushNextBlock sink s) = Resolved again) \<or>
         fst (pushNextBlock sink s) = Rejected RangeError"
    using fr by (cases r4) (simp_all add: c f)
qed

text \<open>
  Claim C5. When the grain the converter receives lies before the cursor,
  \<open>pushNextBlock\<close> queues one callback with \<open>process.nextTick\<close> that emits the ordering
  message as an \<open>'error'\<close> event of the stream: no event is emitted during the call, and
  the event is there once the queued callbacks have run. The call itself settles as a
  promise, resolved or rejected with the \<open>RangeError\<close> of the negative padding, and the
  \<open>_read\<close> that started the cycle returns without throwing.
\<close>

theorem out_of_order_grain_signalled_asynchronously:
  assumes "vmdkParser s = (offset, buf) # rest" and "offset < position s"
  shows "nextTick (snd (pushNextBlock sink s)) = nextTick s @ [Message order_message] \<and>
         errorEvents (snd (pushNextBlock sink s)) = errorEvents s \<and>
         errorEvents (run_nextTick (snd (pushNextBlock sink s))) =
           errorEvents s @ nextTick s @ [Message order_message] \<and>
         ((\<exists>again. fst (pushNextBlock sink s) = Resolved again) \<or>
          fst (pushNextBlock sink s) = Rejected RangeError) \<and>
         (\<not> busy s \<and> \<not> done' s \<and> currentFile s = [] \<longrightarrow>
            fst (Readable_read sink s) = Inr () \<and>
            errorEvents (snd (Readable_read sink s)) = errorEvents s \<and>
            (\<exists>post. nextTick (snd (Readable_read sink s)) =
                      nextTick s @ Message order_message # post))"
proof -
  note o = pushNextBlock_out_of_order [OF assms, of sink]
  have rd: "fst (Readable_read sink s) = Inr () \<and>
            errorEvents (snd (Readable_read sink s)) = errorEvents s \<and>
            (\<exists>post. nextTick (snd (Readable_read sink s)) =
                      nextTick s @ Message order_message # post)"
    if nb: "\<not> busy s" and nd: "\<not> done' s" and q: "currentFile s = []"
  proof -
    let ?b = "s\<lparr>busy := True\<rparr>"
    have pb: "vmdkParser ?b = (offset, buf) # rest" "offset < position ?b"
      using assms by simp_all
    note ob = pushNextBlock_out_of_order [OF pb, of sink]
    obtain p s1 where b: "pushNextBlock sink ?b = (p, s1)" by (cases "pushNextBlock sink ?b")
    from ob b have t1: "nextTick s1 = nextTick s @ [Message order_message]"
      and e1: "errorEvents s1 = errorEvents s" by simp_all
    obtain r2 s2 where u: "pushNextUntilFull sink ?b = (r2, s2)"
      by (cases "pushNextUntilFull sink ?b")
    have "errorEvents s2 = errorEvents s \<and>
          (\<exists>post. nextTick s2 = nextTick s @ Message order_message # post)"
    proof (cases p)
      case (Rejected e)
      with u b nd have "s2 = s1" by (simp add: pushNextUntilFull.simps [of sink ?b])
      with t1 e1 show ?thesis by simp
    next
      case (Resolved again)
      show ?thesis
      proof (cases again)
        case False
        with u b nd Resolved have "s2 = s1" by (simp add: pushNextUntilFull.simps [of sink ?b])
        with t1 e1 show ?thesis by simp
      next
        case True
        with u b nd Resolved have "pushNextUntilFull sink s1 = (r2, s2)"
          by (simp add: pushNextUntilFull.simps [of sink ?b])
        from pushNextUntilFull_frame [OF this] t1 e1 show ?thesis by auto
      qed
    qed
    then show ?thesis
      using nb nd q u
      by (cases r2) (auto simp: Readable_read_def pushFileUntilFull_Nil)
  qed
  show ?thesis
    using o rd by (simp add: run_nextTick_def)
qed

lemma unordered_stream_reached:
  "pushNextBlock eager_sink (ReadableRawVHDStream_new stub_lib 0 8 [(4, [66, 66]), (0, [65, 65])])
     = (Resolved True, unordered_stream)"
  by (simp add: pushNextBlock_def async_def filePadding_def push_def pushFileUntilFull.simps
        Buffer_alloc_def js_rem_def chunkSize_def Let_def ReadableRawVHDStream_new_def
        unordered_stream_def eager_sink_def numeral_eq_Suc)

theorem out_of_order_grain_signalled_asynchronously_witness:
  "vmdkParser unordered_stream = [(0, [65, 65])] \<and> 0 < position unordered_stream \<and>
   fst (pushNextBlock eager_sink unordered_stream) = Rejected RangeError \<and>
   nextTick (snd (pushNextBlock eager_sink unordered_stream)) = [Message order_message] \<and>
   errorEvents (snd (pushNextBlock eager_sink unordered_stream)) = [] \<and>
   fst (Readable_read eager_sink unordered_stream) = Inr () \<and>
   nextTick (snd (Readable_read eager_sink unordered_stream)) =
     [Message order_message, Thrown RangeError]"
proof -
  have h1: "vmdkParser unordered_stream = (0, [65, 65]) # []"
    and h2: "0 < position unordered_stream"
    by (simp_all add: unordered_stream_def)
  have r: "fst (pushNextBlock eager_sink unordered_stream) = Rejected RangeError"
    by (simp add: pushNextBlock_def async_def filePadding_def pushFileUntilFull.simps
          Buffer_alloc_def js_rem_def chunkSize_def Let_def unordered_stream_def)
  have rd: "nextTick (snd (Readable_read eager_sink unordered_stream)) =
              [Message order_message, Thrown RangeError]"
    by (simp add: Readable_read_def pushNextUntilFull.simps pushNextBlock_def async_def
          filePadding_def pushFileUntilFull.simps Buffer_alloc_def js_rem_def chunkSize_def
          Let_def unordered_stream_def)
  from out_of_order_grain_signalled_asynchronously [OF h1 h2, of eager_sink] r rd
  show ?thesis
    by (simp add: unordered_stream_def)
qed

end
